theory Spec2Isabelle
  imports Complex_Main "HOL-Library.Sublist" "HOL-Library.Log_Nat"
begin

section \<open>JavaScript values\<close>

text \<open>
  A field of a JSON payload is absent (\<open>undefined\<close>), \<open>null\<close>, or carries a
  value. The analyzer tests such fields with \<open>if (x)\<close>, \<open>x || d\<close> and
  \<open>.filter(Boolean)\<close>, so truthiness is part of the model: a string is truthy when it
  is not empty, a number when it is not zero, an object or an array always.

  A JavaScript number is an IEEE 754 double. The integral numbers of the payloads
  (durations, popularities) are modelled by \<open>int\<close>, and a count that the analyzer
  keeps by \<open>nat\<close>: every integer of magnitude up to \<open>2 ^ 53\<close> is a double, and sums,
  differences and remainders of such integers are exact as long as they stay in that
  range. What the analyzer computes on durations beyond this, a quotient or a sum that
  may leave the range, is rounded as a double is (subsection \<open>Floating point\<close>). An
  \<open>int\<close> that is not a double stands for no JavaScript number.
\<close>

datatype 'a nullable = Undefined | Null | Val 'a

fun truthy_str :: "string nullable \<Rightarrow> bool" where
  "truthy_str (Val s) = (s \<noteq> [])"
| "truthy_str _ = False"

fun truthy_obj :: "'a nullable \<Rightarrow> bool" where
  "truthy_obj (Val _) = True"
| "truthy_obj _ = False"

text \<open>\<open>x || 0\<close> on a numeric field.\<close>

fun or_zero :: "int nullable \<Rightarrow> int" where
  "or_zero (Val n) = n"
| "or_zero _ = 0"

text \<open>\<open>xs || []\<close> on an array field.\<close>

fun or_empty :: "'a list nullable \<Rightarrow> 'a list" where
  "or_empty (Val xs) = xs"
| "or_empty _ = []"

subsection \<open>Numbers as strings\<close>

text \<open>
  \<open>String(n)\<close> for an integral number: its decimal digits, with a minus sign when
  negative (the exponent notation of numbers from \<open>10 ^ 21\<close> on is not modelled).
\<close>

definition digit_char :: "nat \<Rightarrow> char" where
  "digit_char d = ''0123456789'' ! d"

fun nat_to_string :: "nat \<Rightarrow> string" where
  "nat_to_string n =
     (if n < 10 then [digit_char n]
      else nat_to_string (n div 10) @ [digit_char (n mod 10)])"

declare nat_to_string.simps [simp del]

definition number_to_string :: "int \<Rightarrow> string" where
  "number_to_string n =
     (if n < 0 then CHR ''-'' # nat_to_string (nat (- n)) else nat_to_string (nat n))"

subsection \<open>Floating point\<close>

text \<open>
  A double has 53 significant bits, and the result of an arithmetic operation is the
  double nearest to the exact result, the one with an even significand when two are
  equally near. For \<open>x > 0\<close>, \<open>binade x\<close> is the exponent \<open>e\<close> with
  \<open>2 ^ e \<le> x < 2 ^ (e + 1)\<close> (lemma \<open>binade_bounds\<close>); the doubles from \<open>2 ^ e\<close> to
  \<open>2 ^ (e + 1)\<close> are the multiples of \<open>2 ^ (e - 52)\<close>, and those below
  \<open>2 ^ - 1022\<close> the multiples of \<open>2 ^ - 1074\<close>. \<open>double_of x\<close> is the double nearest
  to the exact value \<open>x\<close>. Results beyond the largest double (\<open>Infinity\<close>), \<open>NaN\<close>
  and the sign of zero are not modelled.
\<close>

definition binade :: "rat \<Rightarrow> int" where
  "binade x = (if 1 \<le> x then bitlen \<lfloor>x\<rfloor> - 1 else - bitlen (\<lceil>1 / x\<rceil> - 1))"

definition round_half_even :: "rat \<Rightarrow> int" where
  "round_half_even y =
     (let f = \<lfloor>y\<rfloor>; d = y - of_int f
      in if d < 1 / 2 then f else if 1 / 2 < d then f + 1 else if even f then f else f + 1)"

definition double_of :: "rat \<Rightarrow> rat" where
  "double_of x =
     (if x = 0 then 0
      else (let u = 2 powi (max (binade \<bar>x\<bar>) (- 1022) - 52)
            in sgn x * of_int (round_half_even (\<bar>x\<bar> / u)) * u))"

text \<open>
  \<open>Math.floor(a / b)\<close>, \<open>a + b\<close> (and \<open>a - b\<close>, which is \<open>a + (- b)\<close>) and
  \<open>a * b\<close> on integral numbers: the exact quotient, sum or product, rounded to a
  double, and floored (the double nearest to an integer is integral). \<open>a % b\<close> is
  exact, and the remainder has the sign of the dividend.
\<close>

definition js_floor_div :: "int \<Rightarrow> int \<Rightarrow> int" where
  "js_floor_div a b = \<lfloor>double_of (of_int a / of_int b)\<rfloor>"

definition js_add :: "int \<Rightarrow> int \<Rightarrow> int" where
  "js_add a b = \<lfloor>double_of (of_int (a + b))\<rfloor>"

definition js_mul :: "int \<Rightarrow> int \<Rightarrow> int" where
  "js_mul a b = \<lfloor>double_of (of_int (a * b))\<rfloor>"

definition js_rem :: "int \<Rightarrow> int \<Rightarrow> int" where
  "js_rem a b = sgn a * (\<bar>a\<bar> mod \<bar>b\<bar>)"

section \<open>Duration formatting\<close>

text \<open>
  \<^verbatim>\<open>
  function formatDuration(ms){
    const s = Math.floor(ms/1000);
    const h = Math.floor(s/3600);
    const m = Math.floor((s%3600)/60);
    const sec = s%60;
    return (h>0 ? h+'h ' : '') + m+'m '+sec+'s';
  }
  \<close>
\<close>

definition formatDuration :: "int \<Rightarrow> string" where
  "formatDuration ms =
     (let s = js_floor_div ms 1000;
          h = js_floor_div s 3600;
          m = js_floor_div (js_rem s 3600) 60;
          sec = js_rem s 60
      in (if h > 0 then number_to_string h @ ''h '' else [])
         @ number_to_string m @ ''m '' @ number_to_string sec @ ''s'')"

subsection \<open>Reading a formatted duration back\<close>

text \<open>
  The reader used to state the round trip: a component is a non-empty run of decimal
  digits followed by its unit letter; components are separated by one space; the hour
  component may be missing.
\<close>

definition is_digit :: "char \<Rightarrow> bool" where
  "is_digit c = (48 \<le> (of_char c :: nat) \<and> (of_char c :: nat) \<le> 57)"

definition digits_value :: "string \<Rightarrow> nat" where
  "digits_value ds = foldl (\<lambda>acc c. 10 * acc + (of_char c - 48)) 0 ds"

definition read_component :: "char \<Rightarrow> string \<Rightarrow> (nat \<times> string) option" where
  "read_component unit s =
     (let ds = takeWhile is_digit s in
      case dropWhile is_digit s of
        [] \<Rightarrow> None
      | u # rest \<Rightarrow> if ds \<noteq> [] \<and> u = unit then Some (digits_value ds, rest) else None)"

definition read_min_sec :: "string \<Rightarrow> (nat \<times> nat) option" where
  "read_min_sec s =
     (case read_component CHR ''m'' s of
        Some (m, c # rest) \<Rightarrow>
          (if c = CHR '' '' then
             (case read_component CHR ''s'' rest of
                Some (sec, []) \<Rightarrow> Some (m, sec)
              | _ \<Rightarrow> None)
           else None)
      | _ \<Rightarrow> None)"

definition parseDuration :: "string \<Rightarrow> (nat \<times> nat \<times> nat) option" where
  "parseDuration s =
     (case read_component CHR ''h'' s of
        Some (h, c # rest) \<Rightarrow>
          (if c = CHR '' '' then map_option (\<lambda>(m, sec). (h, m, sec)) (read_min_sec rest)
           else None)
      | Some (h, []) \<Rightarrow> None
      | None \<Rightarrow> map_option (\<lambda>(m, sec). (0, m, sec)) (read_min_sec s))"

section \<open>Objects used as dictionaries\<close>

text \<open>
  The analyzer keeps its tables (\<open>audioFeatures\<close>, \<open>artistsMap\<close>, \<open>artistCount\<close>,
  \<open>genreCount\<close>) in plain objects and reads them back with \<open>Object.entries\<close> and
  \<open>Object.values\<close>. An object is modelled by the list of its own properties in
  enumeration order: property names that are array indices (the decimal form of a number
  below \<open>2 ^ 32 - 1\<close>) come first, in ascending numeric order, and every other name
  follows in the order in which it was first written. Writing to an existing name keeps
  its position.

  A plain object inherits from \<open>Object.prototype\<close>. Reading \<open>obj[k]\<close> for a name
  \<open>k\<close> that \<open>obj\<close> does not own finds the member of \<open>Object.prototype\<close> of that
  name, if there is one: a function for eleven names, and for \<open>__proto__\<close> the
  prototype itself. Writing \<open>obj[k] = v\<close> creates or updates an own property, except
  for \<open>__proto__\<close>: that assignment creates no own property; it replaces the prototype
  of \<open>obj\<close> when \<open>v\<close> is an object and does nothing otherwise. \<open>obj_get\<close> and
  \<open>obj_set\<close> read and write an own property; the operations of the analyzer on its
  tables (\<open>assign\<close>, \<open>bump\<close>, \<open>merge_audio_feature\<close>, \<open>audioFeatures_get\<close>) are
  built from them.
\<close>

type_synonym 'v js_object = "(string \<times> 'v) list"

definition is_array_index :: "string \<Rightarrow> bool" where
  "is_array_index k = (nat_to_string (digits_value k) = k \<and> digits_value k < 4294967295)"

fun insert_index_key :: "nat \<Rightarrow> string \<Rightarrow> 'v \<Rightarrow> 'v js_object \<Rightarrow> 'v js_object" where
  "insert_index_key n k v [] = [(k, v)]"
| "insert_index_key n k v ((k', v') # rest) =
     (if is_array_index k' \<and> digits_value k' < n then (k', v') # insert_index_key n k v rest
      else (k, v) # (k', v') # rest)"

definition obj_get :: "'v js_object \<Rightarrow> string \<Rightarrow> 'v option" where
  "obj_get obj k = map_of obj k"

definition obj_set :: "'v js_object \<Rightarrow> string \<Rightarrow> 'v \<Rightarrow> 'v js_object" where
  "obj_set obj k v =
     (if obj_get obj k \<noteq> None then map (\<lambda>(k', v'). if k' = k then (k', v) else (k', v')) obj
      else if is_array_index k then insert_index_key (digits_value k) k v obj
      else obj @ [(k, v)])"

text \<open>The names of the members of \<open>Object.prototype\<close>.\<close>

definition inherited_names :: "string list" where
  "inherited_names =
     [''constructor'', ''__defineGetter__'', ''__defineSetter__'', ''hasOwnProperty'',
      ''__lookupGetter__'', ''__lookupSetter__'', ''isPrototypeOf'', ''propertyIsEnumerable'',
      ''toString'', ''valueOf'', ''__proto__'', ''toLocaleString'']"

definition inherited_name :: "string \<Rightarrow> bool" where
  "inherited_name k = (k \<in> set inherited_names)"

text \<open>
  \<open>obj[k] = v\<close> for an object \<open>v\<close>, on a table whose prototype is not read afterwards
  (\<open>artistsMap\<close>, which is read with \<open>Object.values\<close> only).
\<close>

definition assign :: "'v js_object \<Rightarrow> string \<Rightarrow> 'v \<Rightarrow> 'v js_object" where
  "assign obj k v = (if k = ''__proto__'' then obj else obj_set obj k v)"

text \<open>
  \<open>obj[k] = (obj[k] || 0) + 1\<close> on a count object. A count is a number, unless the
  name is one that \<open>Object.prototype\<close> supplies: then \<open>obj[k]\<close> is a function the
  first time, \<open>+ 1\<close> appends \<open>1\<close> to its source text (as Node prints it), and the
  count is a string from then on. For \<open>__proto__\<close> the value read is an object and the
  string that results is assigned to \<open>__proto__\<close>, which does nothing.
\<close>

datatype counter = Num nat | Text string

definition function_text :: "string \<Rightarrow> string" where
  "function_text k =
     ''function '' @ (if k = ''constructor'' then ''Object'' else k) @ ''() { [native code] }''"

definition bump :: "counter js_object \<Rightarrow> string \<Rightarrow> counter js_object" where
  "bump obj k =
     (case obj_get obj k of
        Some (Num n) \<Rightarrow> obj_set obj k (Num (n + 1))
      | Some (Text s) \<Rightarrow> obj_set obj k (if s = [] then Num 1 else Text (s @ ''1''))
      | None \<Rightarrow>
          if k = ''__proto__'' then obj
          else if inherited_name k then obj_set obj k (Text (function_text k @ ''1''))
          else obj_set obj k (Num 1))"

text \<open>A value used as a property name is converted to a string.\<close>

fun property_key :: "string nullable \<Rightarrow> string" where
  "property_key (Val s) = s"
| "property_key Null = ''null''"
| "property_key Undefined = ''undefined''"

text \<open>\<open>a || b\<close> on strings.\<close>

definition or_str :: "string nullable \<Rightarrow> string nullable \<Rightarrow> string nullable" where
  "or_str a b = (if truthy_str a then a else b)"

text \<open>\<open>xs.filter(Boolean)\<close> on an array of strings, \<open>null\<close> and \<open>undefined\<close>.\<close>

fun filter_Boolean :: "string nullable list \<Rightarrow> string list" where
  "filter_Boolean [] = []"
| "filter_Boolean (Val s # xs) = (if s \<noteq> [] then s # filter_Boolean xs else filter_Boolean xs)"
| "filter_Boolean (_ # xs) = filter_Boolean xs"

text \<open>
  \<open>[...new Set(xs)]\<close>: the elements are added to the set one by one, an element that
  is already there is not added again, and the set keeps the order of insertion.
\<close>

definition unique :: "'a list \<Rightarrow> 'a list" where
  "unique xs = foldl (\<lambda>seen x. if x \<in> set seen then seen else seen @ [x]) [] xs"

text \<open>\<open>xs.join(sep)\<close>; \<open>null\<close> and \<open>undefined\<close> elements are written as nothing.\<close>

fun join_str :: "string nullable \<Rightarrow> string" where
  "join_str (Val s) = s"
| "join_str _ = []"

fun join :: "string \<Rightarrow> string nullable list \<Rightarrow> string" where
  "join sep [] = []"
| "join sep [x] = join_str x"
| "join sep (x # y # ys) = join_str x @ sep @ join sep (y # ys)"

text \<open>
  \<open>xs.sort((a, b) => key(b) - key(a))\<close> for numeric keys: \<open>Array.prototype.sort\<close> is
  stable, and the comparator orders by descending key (the sign of a difference of two
  doubles is exact), so the result is the stable sort by the negated key.
\<close>

definition sort_descending :: "('a \<Rightarrow> int) \<Rightarrow> 'a list \<Rightarrow> 'a list" where
  "sort_descending key xs = sort_key (\<lambda>x. - key x) xs"

section \<open>Payloads of the provider\<close>

record artist_ref =
  ref_id :: "string nullable"
  ref_name :: "string nullable"

record track =
  track_id :: "string nullable"
  track_name :: "string nullable"
  track_duration_ms :: "int nullable"
  track_popularity :: "int nullable"
  track_artists :: "artist_ref nullable list nullable"

text \<open>
  A page of playlist tracks. Each wrapper item \<open>i\<close> of \<open>data.items\<close> is represented
  by its \<open>i.track\<close>, which is a track, \<open>null\<close> or absent.
\<close>

record tracks_page =
  page_items :: "track nullable list"
  page_next :: "string nullable"

text \<open>
  An audio-feature record: its \<open>id\<close> and its other fields, each absent, \<open>null\<close> or a
  number. The feature values are fractions; their type \<open>'n\<close> and the arithmetic on it
  are parameters of the model (see \<open>engine\<close>).
\<close>

record 'n audio_feature =
  af_id :: "string nullable"
  af_fields :: "(string \<times> 'n nullable) list"

definition af_field :: "'n audio_feature \<Rightarrow> string \<Rightarrow> 'n nullable" where
  "af_field af k = (case map_of (af_fields af) k of None \<Rightarrow> Undefined | Some v \<Rightarrow> v)"

record artist =
  artist_id :: "string nullable"
  artist_genres :: "string list nullable"

record owner =
  owner_display_name :: "string nullable"
  owner_id :: "string nullable"

record image =
  image_url :: "string nullable"

record playlist =
  playlist_id :: "string nullable"
  playlist_name :: "string nullable"
  playlist_owner :: "owner nullable"
  playlist_images :: "image nullable list nullable"

record token_data =
  data_access_token :: "string nullable"
  data_expires_in :: "int nullable"

record session =
  access_token :: "string nullable"
  refresh_token :: "string nullable"
  expires_in :: "int nullable"

section \<open>Requests and failures\<close>

text \<open>
  \<open>axios\<close> rejects a request that is answered with a status outside 2xx, with the
  message \<open>Request failed with status code N\<close> and the answer's body in
  \<open>err.response.data\<close>; a request that gets no answer is rejected with no
  \<open>err.response\<close> and a message that tells why (the model has one such failure, with
  the message \<open>Network Error\<close>).
\<close>

datatype axios_error = BadStatus nat "string nullable" | NetworkError

datatype exn =
    Error string
  | AxiosError axios_error
  | TypeError string string

fun message :: "exn \<Rightarrow> string" where
  "message (Error m) = m"
| "message (AxiosError (BadStatus n body)) = ''Request failed with status code '' @ nat_to_string n"
| "message (AxiosError NetworkError) = ''Network Error''"
| "message (TypeError what prop) =
     ''Cannot read properties of '' @ what @ '' (reading '' @ [CHR 0x27] @ prop @ [CHR 0x27] @ '')''"

text \<open>\<open>err.response?.data\<close>\<close>

fun response_data :: "exn \<Rightarrow> string nullable" where
  "response_data (AxiosError (BadStatus n body)) = body"
| "response_data _ = Undefined"

datatype request =
    PostToken "string nullable"
  | GetPlaylist "string nullable" string
  | GetTracks "string nullable" string
  | GetAudioFeatures "string nullable" string
  | GetArtists "string nullable" string

text \<open>
  A request carries the bearer token (the refresh token for \<open>PostToken\<close>) and what
  varies in its address: the playlist id, the page link, or the comma-joined batch of ids.
\<close>

fun request_url :: "request \<Rightarrow> string" where
  "request_url (PostToken _) = ''https://accounts.spotify.com/api/token''"
| "request_url (GetPlaylist _ playlistId) = ''https://api.spotify.com/v1/playlists/'' @ playlistId"
| "request_url (GetTracks _ url) = url"
| "request_url (GetAudioFeatures _ batch) =
     ''https://api.spotify.com/v1/audio-features?ids='' @ batch"
| "request_url (GetArtists _ batch) = ''https://api.spotify.com/v1/artists?ids='' @ batch"

definition tracks_url :: "string \<Rightarrow> string" where
  "tracks_url playlistId =
     ''https://api.spotify.com/v1/playlists/'' @ playlistId @ ''/tracks?limit=100''"

text \<open>
  The provider answers a request; its answer may depend on the requests made before
  (the first argument). \<open>date_now\<close> is the clock, read after the given requests.
\<close>

record 'n upstream =
  post_token :: "request list \<Rightarrow> string nullable \<Rightarrow> axios_error + token_data"
  get_playlist :: "request list \<Rightarrow> string nullable \<Rightarrow> string \<Rightarrow> axios_error + playlist"
  get_tracks :: "request list \<Rightarrow> string nullable \<Rightarrow> string \<Rightarrow> axios_error + tracks_page"
  get_audio_features ::
    "request list \<Rightarrow> string nullable \<Rightarrow> string
       \<Rightarrow> axios_error + 'n audio_feature nullable list nullable"
  get_artists ::
    "request list \<Rightarrow> string nullable \<Rightarrow> string \<Rightarrow> axios_error + artist nullable list nullable"
  date_now :: "request list \<Rightarrow> int"

text \<open>The failure, if any, with which the provider answers a request made after \<open>before\<close>.\<close>

definition failure_of :: "axios_error + 'a \<Rightarrow> axios_error option" where
  "failure_of answer = (case answer of Inl e \<Rightarrow> Some e | Inr _ \<Rightarrow> None)"

fun answer_failure :: "'n upstream \<Rightarrow> request list \<Rightarrow> request \<Rightarrow> axios_error option" where
  "answer_failure up before (PostToken rt) = failure_of (post_token up before rt)"
| "answer_failure up before (GetPlaylist token playlistId) =
     failure_of (get_playlist up before token playlistId)"
| "answer_failure up before (GetTracks token url) = failure_of (get_tracks up before token url)"
| "answer_failure up before (GetAudioFeatures token batch) =
     failure_of (get_audio_features up before token batch)"
| "answer_failure up before (GetArtists token batch) =
     failure_of (get_artists up before token batch)"

section \<open>The analyze route\<close>

subsection \<open>Access token\<close>

text \<open>
  \<^verbatim>\<open>
  async function ensureAccessToken(req) {
    if (!req.session || !req.session.access_token) throw new Error('not_authenticated');
    const expiresAt = req.session.expires_in || 0;
    if (Date.now() < expiresAt - 5000) return req.session.access_token;
    const refresh_token = req.session.refresh_token;
    const resp = await axios.post('https://accounts.spotify.com/api/token', ...);
    req.session.access_token = resp.data.access_token;
    req.session.expires_in = Date.now() + ((resp.data.expires_in || 3600) * 1000);
    return req.session.access_token;
  }
  \<close>
  The result is the token and the session as written back, with the requests made.
\<close>

definition ensureAccessToken ::
  "'n upstream \<Rightarrow> session nullable \<Rightarrow> (exn + string nullable \<times> session) \<times> request list" where
  "ensureAccessToken up req_session =
     (case req_session of
        Val s \<Rightarrow>
          if \<not> truthy_str (access_token s) then (Inl (Error ''not_authenticated''), [])
          else if date_now up [] < js_add (or_zero (expires_in s)) (- 5000)
          then (Inr (access_token s, s), [])
          else
            (let reqs = [PostToken (refresh_token s)] in
             case post_token up [] (refresh_token s) of
               Inl e \<Rightarrow> (Inl (AxiosError e), reqs)
             | Inr d \<Rightarrow>
                 (Inr (data_access_token d,
                       s\<lparr>access_token := data_access_token d,
                         expires_in :=
                           Val (js_add (date_now up reqs)
                                  (js_mul (if or_zero (data_expires_in d) = 0 then 3600
                                           else or_zero (data_expires_in d)) 1000))\<rparr>),
                  reqs))
      | _ \<Rightarrow> (Inl (Error ''not_authenticated''), []))"

subsection \<open>Fetching the tracks, page by page\<close>

text \<open>
  \<^verbatim>\<open>
  let tracks = [];
  let next = `https://api.spotify.com/v1/playlists/${playlistId}/tracks?limit=100`;
  while (next) {
    const tResp = await axios.get(next, { headers: { Authorization: `Bearer ${token}` } });
    const items = tResp.data.items;
    items.forEach(i => { if (i.track) tracks.push(i.track); });
    next = tResp.data.next;
  }
  \<close>
  The loop runs for as long as the provider supplies a next link, so it need not end:
  \<open>None\<close> is the run that never leaves the loop.
\<close>

fun push_tracks :: "track list \<Rightarrow> track nullable list \<Rightarrow> track list" where
  "push_tracks tracks [] = tracks"
| "push_tracks tracks (Val t # items) = push_tracks (tracks @ [t]) items"
| "push_tracks tracks (_ # items) = push_tracks tracks items"

partial_function (option) fetchTracks ::
  "'n upstream \<Rightarrow> string nullable \<Rightarrow> string nullable \<Rightarrow> track list \<Rightarrow> request list
     \<Rightarrow> ((exn + track list) \<times> request list) option" where
  "fetchTracks up token next tracks reqs =
     (if truthy_str next then
        (case get_tracks up reqs token (property_key next) of
           Inl e \<Rightarrow> Some (Inl (AxiosError e), reqs @ [GetTracks token (property_key next)])
         | Inr page \<Rightarrow>
             fetchTracks up token (page_next page) (push_tracks tracks (page_items page))
               (reqs @ [GetTracks token (property_key next)]))
      else Some (Inr tracks, reqs))"

subsection \<open>Identifiers to resolve\<close>

text \<open>
  \<^verbatim>\<open>
  const trackIds = tracks.map(t => t.id).filter(Boolean);
  const artistIds = [];
  tracks.forEach(t => {
    if (t && t.artists) { t.artists.forEach(a => artistIds.push(a.id)); }
  });
  \<close>
  Reading \<open>a.id\<close> of an artist entry that is \<open>null\<close> or absent throws.
\<close>

definition trackIds_of :: "track list \<Rightarrow> string list" where
  "trackIds_of tracks = filter_Boolean (map track_id tracks)"

fun push_artist_ids ::
  "string nullable list \<Rightarrow> artist_ref nullable list \<Rightarrow> exn + string nullable list" where
  "push_artist_ids artistIds [] = Inr artistIds"
| "push_artist_ids artistIds (Val a # as) = push_artist_ids (artistIds @ [ref_id a]) as"
| "push_artist_ids artistIds (Null # as) = Inl (TypeError ''null'' ''id'')"
| "push_artist_ids artistIds (Undefined # as) = Inl (TypeError ''undefined'' ''id'')"

fun artistIds_of :: "string nullable list \<Rightarrow> track list \<Rightarrow> exn + string nullable list" where
  "artistIds_of artistIds [] = Inr artistIds"
| "artistIds_of artistIds (t # tracks) =
     (case push_artist_ids artistIds (or_empty (track_artists t)) of
        Inl e \<Rightarrow> Inl e
      | Inr artistIds' \<Rightarrow> artistIds_of artistIds' tracks)"

subsection \<open>Audio features, in batches of 100\<close>

text \<open>
  \<^verbatim>\<open>
  const audioFeatures = {};
  for (let i = 0; i < trackIds.length; i += 100) {
    const batch = trackIds.slice(i, i + 100).join(',');
    if (!batch) continue;
    const fResp = await axios.get(`https://api.spotify.com/v1/audio-features?ids=${batch}`, ...);
    (fResp.data.audio_features || []).forEach(af => {
      if (af && af.id) audioFeatures[af.id] = af;
    });
  }
  \<close>
\<close>

definition slice :: "'a list \<Rightarrow> nat \<Rightarrow> nat \<Rightarrow> 'a list" where
  "slice xs i j = take (j - i) (drop i xs)"

text \<open>
  The table \<open>audioFeatures\<close> is read with \<open>audioFeatures[t.id]\<close>, which follows the
  prototype chain, so the model keeps, next to the own properties, the record that an
  assignment to \<open>__proto__\<close> has made the prototype of the table, if any.
\<close>

record 'n features_table =
  own_features :: "'n audio_feature js_object"
  prototype :: "'n audio_feature option"

definition empty_features :: "'n features_table" where
  "empty_features = \<lparr>own_features = [], prototype = None\<rparr>"

definition merge_audio_feature ::
  "'n features_table \<Rightarrow> 'n audio_feature nullable \<Rightarrow> 'n features_table" where
  "merge_audio_feature audioFeatures x =
     (case x of
        Val af \<Rightarrow>
          if truthy_str (af_id af) then
            (if property_key (af_id af) = ''__proto__'' then audioFeatures\<lparr>prototype := Some af\<rparr>
             else audioFeatures\<lparr>own_features :=
                    obj_set (own_features audioFeatures) (property_key (af_id af)) af\<rparr>)
          else audioFeatures
      | _ \<Rightarrow> audioFeatures)"

function fetchAudioFeatures ::
  "'n upstream \<Rightarrow> string nullable \<Rightarrow> string list \<Rightarrow> nat \<Rightarrow> 'n features_table
     \<Rightarrow> request list \<Rightarrow> (exn + 'n features_table) \<times> request list" where
  "fetchAudioFeatures up token trackIds i audioFeatures reqs =
     (if i < length trackIds then
        (let batch = join '','' (map Val (slice trackIds i (i + 100))) in
         if batch = [] then fetchAudioFeatures up token trackIds (i + 100) audioFeatures reqs
         else
           (case get_audio_features up reqs token batch of
              Inl e \<Rightarrow> (Inl (AxiosError e), reqs @ [GetAudioFeatures token batch])
            | Inr data \<Rightarrow>
                fetchAudioFeatures up token trackIds (i + 100)
                  (foldl merge_audio_feature audioFeatures (or_empty data))
                  (reqs @ [GetAudioFeatures token batch])))
      else (Inr audioFeatures, reqs))"
  by pat_completeness auto
termination
  by (relation "measure (\<lambda>(up, token, trackIds, i, audioFeatures, reqs). length trackIds - i)") auto

declare fetchAudioFeatures.simps [simp del]

subsection \<open>Artists, deduplicated, in batches of 50\<close>

text \<open>
  \<^verbatim>\<open>
  const uniqueArtistIds = [...new Set(artistIds)].filter(Boolean);
  const artistsMap = {};
  for (let i = 0; i < uniqueArtistIds.length; i += 50) {
    const batch = uniqueArtistIds.slice(i, i + 50).join(',');
    if (!batch) continue;
    const aResp = await axios.get(`https://api.spotify.com/v1/artists?ids=${batch}`, ...);
    (aResp.data.artists || []).forEach(a => { artistsMap[a.id] = a; });
  }
  \<close>
  Here an entry of the answer that is \<open>null\<close> is not skipped: reading its \<open>id\<close> throws.
  A record whose id is \<open>__proto__\<close> is not kept (see \<open>assign\<close>).
\<close>

definition uniqueArtistIds_of :: "string nullable list \<Rightarrow> string list" where
  "uniqueArtistIds_of artistIds = filter_Boolean (unique artistIds)"

fun merge_artists :: "artist js_object \<Rightarrow> artist nullable list \<Rightarrow> exn + artist js_object" where
  "merge_artists artistsMap [] = Inr artistsMap"
| "merge_artists artistsMap (Val a # as) =
     merge_artists (assign artistsMap (property_key (artist_id a)) a) as"
| "merge_artists artistsMap (Null # as) = Inl (TypeError ''null'' ''id'')"
| "merge_artists artistsMap (Undefined # as) = Inl (TypeError ''undefined'' ''id'')"

function fetchArtists ::
  "'n upstream \<Rightarrow> string nullable \<Rightarrow> string list \<Rightarrow> nat \<Rightarrow> artist js_object
     \<Rightarrow> request list \<Rightarrow> (exn + artist js_object) \<times> request list" where
  "fetchArtists up token uniqueArtistIds i artistsMap reqs =
     (if i < length uniqueArtistIds then
        (let batch = join '','' (map Val (slice uniqueArtistIds i (i + 50))) in
         if batch = [] then fetchArtists up token uniqueArtistIds (i + 50) artistsMap reqs
         else
           (case get_artists up reqs token batch of
              Inl e \<Rightarrow> (Inl (AxiosError e), reqs @ [GetArtists token batch])
            | Inr data \<Rightarrow>
                (case merge_artists artistsMap (or_empty data) of
                   Inl e \<Rightarrow> (Inl e, reqs @ [GetArtists token batch])
                 | Inr artistsMap' \<Rightarrow>
                     fetchArtists up token uniqueArtistIds (i + 50) artistsMap'
                       (reqs @ [GetArtists token batch]))))
      else (Inr artistsMap, reqs))"
  by pat_completeness auto
termination
  by (relation "measure (\<lambda>(up, token, ids, i, artistsMap, reqs). length ids - i)") auto

declare fetchArtists.simps [simp del]

subsection \<open>Statistics\<close>

text \<open>
  The audio features are fractions, held in JavaScript as floating-point numbers. The
  model does not fix their arithmetic: the type \<open>'n\<close> of numbers and the operations
  the route applies to them (\<open>0\<close>, \<open>+\<close>, \<open>/\<close> by a count, \<open>+x.toFixed(3)\<close>, and the
  truth value of a number, which is false for \<open>0\<close> and \<open>NaN\<close>) are parameters, so that
  what is proved holds for floating-point arithmetic as it does for exact fractions.

  One more parameter is the order in which \<open>Array.prototype.sort\<close> leaves the entries of
  a count object when its comparator is not consistent on them, which the language
  leaves to the implementation (see \<open>rank\<close>).
\<close>

record 'n engine =
  num_zero :: 'n
  num_add :: "'n \<Rightarrow> 'n \<Rightarrow> 'n"
  num_div :: "'n \<Rightarrow> nat \<Rightarrow> 'n"
  num_toFixed3 :: "'n \<Rightarrow> 'n"
  num_truthy :: "'n \<Rightarrow> bool"
  sort_inconsistent :: "(string \<times> counter) list \<Rightarrow> (string \<times> counter) list"

text \<open>
  Exact fractions, used for the examples (this is not the arithmetic of the code, which
  rounds every result to a double): \<open>x.toFixed(3)\<close> takes the multiple of \<open>1 / 1000\<close>
  nearest to \<open>x\<close>, the one of larger magnitude when two are equally near.
\<close>

definition exact_ops :: "rat engine" where
  "exact_ops =
     \<lparr>num_zero = 0,
      num_add = (\<lambda>a b. a + b),
      num_div = (\<lambda>a n. a / of_nat n),
      num_toFixed3 = (\<lambda>x. sgn x * of_int \<lfloor>\<bar>x\<bar> * 1000 + 1 / 2\<rfloor> / 1000),
      num_truthy = (\<lambda>x. x \<noteq> 0),
      sort_inconsistent = (\<lambda>es. es)\<rparr>"

text \<open>
  \<^verbatim>\<open>
  const featuresAccumulator = { danceability: 0, energy: 0, valence: 0, tempo: 0,
    acousticness: 0, instrumentalness: 0, liveness: 0, speechiness: 0 };
  \<close>
\<close>

definition feature_names :: "string list" where
  "feature_names =
     [''danceability'', ''energy'', ''valence'', ''tempo'',
      ''acousticness'', ''instrumentalness'', ''liveness'', ''speechiness'']"

record track_tuple =
  tuple_id :: "string nullable"
  tuple_name :: "string nullable"
  tuple_artists :: string
  tuple_popularity :: int

record 'n stats =
  totalDurationMs :: int
  artistCount :: "counter js_object"
  trackPopularity :: "track_tuple list"
  featuresAccumulator :: "(string \<times> 'n) list"
  featuresCount :: nat

definition initial_stats :: "'n engine \<Rightarrow> 'n stats" where
  "initial_stats ops =
     \<lparr>totalDurationMs = 0, artistCount = [], trackPopularity = [],
      featuresAccumulator = map (\<lambda>k. (k, num_zero ops)) feature_names,
      featuresCount = 0\<rparr>"

text \<open>\<open>t.artists.map(a => a.name)\<close>: throws when \<open>t.artists\<close> is not there, and when
  one of its entries is not.\<close>

fun artist_names :: "artist_ref nullable list \<Rightarrow> exn + string nullable list" where
  "artist_names [] = Inr []"
| "artist_names (Val a # as) =
     (case artist_names as of Inl e \<Rightarrow> Inl e | Inr names \<Rightarrow> Inr (ref_name a # names))"
| "artist_names (Null # as) = Inl (TypeError ''null'' ''name'')"
| "artist_names (Undefined # as) = Inl (TypeError ''undefined'' ''name'')"

fun artists_map_name :: "artist_ref nullable list nullable \<Rightarrow> exn + string nullable list" where
  "artists_map_name (Val as) = artist_names as"
| "artists_map_name Null = Inl (TypeError ''null'' ''map'')"
| "artists_map_name Undefined = Inl (TypeError ''undefined'' ''map'')"

text \<open>
  \<^verbatim>\<open>
  (t.artists || []).forEach(a => {
    if (!a || !a.id) return;
    artistCount[a.name || a.id] = (artistCount[a.name || a.id] || 0) + 1;
  });
  \<close>
\<close>

definition count_artist :: "counter js_object \<Rightarrow> artist_ref nullable \<Rightarrow> counter js_object" where
  "count_artist counts x =
     (case x of
        Val a \<Rightarrow>
          if truthy_str (ref_id a)
          then bump counts (property_key (or_str (ref_name a) (ref_id a)))
          else counts
      | _ \<Rightarrow> counts)"

text \<open>
  \<^verbatim>\<open>
  Object.keys(featuresAccumulator).forEach(k => {
    if (af[k] !== undefined && af[k] !== null) { featuresAccumulator[k] += af[k]; }
  });
  \<close>
\<close>

definition accumulate ::
  "'n engine \<Rightarrow> 'n audio_feature \<Rightarrow> (string \<times> 'n) list \<Rightarrow> (string \<times> 'n) list" where
  "accumulate ops af acc =
     map (\<lambda>(k, x). (k, case af_field af k of Val v \<Rightarrow> num_add ops x v | _ \<Rightarrow> x)) acc"

text \<open>
  \<open>audioFeatures[t.id]\<close>, as \<open>if (af)\<close> and \<open>af[k]\<close> see it: a record; another truthy
  value, which has none of the named fields (a function or the prototype object that
  \<open>Object.prototype\<close> supplies, or a string or a number found on a record that has become
  the prototype of the table); or nothing truthy. An own property of the table comes
  first, then the properties of the record that is the prototype of the table, if any
  (its \<open>id\<close> and its other fields), then the members of \<open>Object.prototype\<close>, where
  \<open>__proto__\<close> gives the prototype of the table.
\<close>

datatype 'n found = Record "'n audio_feature" | Other | Nothing

definition inherited_value :: "'n engine \<Rightarrow> 'n audio_feature option \<Rightarrow> string \<Rightarrow> 'n found" where
  "inherited_value ops proto k =
     (case proto of
        None \<Rightarrow> if inherited_name k then Other else Nothing
      | Some af \<Rightarrow>
          if k = ''id'' \<and> af_id af \<noteq> Undefined
          then (if truthy_str (af_id af) then Other else Nothing)
          else
            (case map_of (af_fields af) k of
               Some (Val v) \<Rightarrow> if num_truthy ops v then Other else Nothing
             | Some _ \<Rightarrow> Nothing
             | None \<Rightarrow>
                 if k = ''__proto__'' then Record af
                 else if inherited_name k then Other else Nothing))"

definition audioFeatures_get :: "'n engine \<Rightarrow> 'n features_table \<Rightarrow> string \<Rightarrow> 'n found" where
  "audioFeatures_get ops audioFeatures k =
     (case obj_get (own_features audioFeatures) k of
        Some af \<Rightarrow> Record af
      | None \<Rightarrow> inherited_value ops (prototype audioFeatures) k)"

text \<open>
  The body of \<open>tracks.forEach(t => ...)\<close>. Every element of \<open>tracks\<close> is a track (the
  page loop pushed only those), so the guard \<open>if (!t) return\<close> never fires.
  \<^verbatim>\<open>
  totalDurationMs += t.duration_ms || 0;
  trackPopularity.push({ id: t.id, name: t.name,
    artists: t.artists.map(a => a.name).join(', '), popularity: t.popularity || 0 });
  (t.artists || []).forEach(...);
  const af = audioFeatures[t.id];
  if (af) { featuresCount++; Object.keys(featuresAccumulator).forEach(...); }
  \<close>
\<close>

definition aggregate_track ::
  "'n engine \<Rightarrow> 'n features_table \<Rightarrow> 'n stats \<Rightarrow> track \<Rightarrow> exn + 'n stats" where
  "aggregate_track ops audioFeatures st t =
     (case artists_map_name (track_artists t) of
        Inl e \<Rightarrow> Inl e
      | Inr names \<Rightarrow>
          (let st1 = st\<lparr>totalDurationMs :=
                          js_add (totalDurationMs st) (or_zero (track_duration_ms t)),
                        trackPopularity := trackPopularity st @
                          [\<lparr>tuple_id = track_id t, tuple_name = track_name t,
                            tuple_artists = join '', '' names,
                            tuple_popularity = or_zero (track_popularity t)\<rparr>],
                        artistCount := foldl count_artist (artistCount st)
                                         (or_empty (track_artists t))\<rparr>
           in case audioFeatures_get ops audioFeatures (property_key (track_id t)) of
                Record af \<Rightarrow>
                  Inr (st1\<lparr>featuresCount := featuresCount st1 + 1,
                           featuresAccumulator := accumulate ops af (featuresAccumulator st1)\<rparr>)
              | Other \<Rightarrow> Inr (st1\<lparr>featuresCount := featuresCount st1 + 1\<rparr>)
              | Nothing \<Rightarrow> Inr st1))"

fun aggregate ::
  "'n engine \<Rightarrow> 'n features_table \<Rightarrow> 'n stats \<Rightarrow> track list \<Rightarrow> exn + 'n stats" where
  "aggregate ops audioFeatures st [] = Inr st"
| "aggregate ops audioFeatures st (t # tracks) =
     (case aggregate_track ops audioFeatures st t of
        Inl e \<Rightarrow> Inl e
      | Inr st' \<Rightarrow> aggregate ops audioFeatures st' tracks)"

text \<open>
  \<^verbatim>\<open>
  const avgFeatures = {};
  if (featuresCount > 0) {
    Object.keys(featuresAccumulator).forEach(k => {
      avgFeatures[k] = +(featuresAccumulator[k] / featuresCount).toFixed(3);
    });
  }
  \<close>
\<close>

definition avgFeatures_of :: "'n engine \<Rightarrow> 'n stats \<Rightarrow> (string \<times> 'n) list" where
  "avgFeatures_of ops st =
     (if featuresCount st > 0
      then map (\<lambda>(k, x). (k, num_toFixed3 ops (num_div ops x (featuresCount st))))
             (featuresAccumulator st)
      else [])"

text \<open>
  \<^verbatim>\<open>
  const topArtists = Object.entries(artistCount).sort((a, b) => b[1] - a[1]).slice(0, 10)
    .map(([name, count]) => ({ name, count }));
  const topTracks = trackPopularity.sort((a, b) => b.popularity - a.popularity).slice(0, 10);
  \<close>
\<close>

text \<open>
  \<open>entries.sort((a, b) => b[1] - a[1])\<close> on the entries of a count object. When every
  count is a number, this is the stable sort by descending count. A count that is a
  string (see \<open>bump\<close>) makes the difference \<open>NaN\<close>, which the sort takes for 0: every
  pair then compares equal, and the order is kept, if the counts that are numbers are all
  the same; if they are not, the comparator is not consistent, and the order is the
  implementation's.
\<close>

definition numeric :: "string \<times> counter \<Rightarrow> bool" where
  "numeric e = (case snd e of Num n \<Rightarrow> True | Text s \<Rightarrow> False)"

definition count_key :: "string \<times> counter \<Rightarrow> int" where
  "count_key e = (case snd e of Num n \<Rightarrow> int n | Text s \<Rightarrow> 0)"

definition rank :: "'n engine \<Rightarrow> (string \<times> counter) list \<Rightarrow> (string \<times> counter) list" where
  "rank ops es =
     (if list_all numeric es then sort_descending count_key es
      else if length (remdups (map count_key (filter numeric es))) \<le> 1 then es
      else sort_inconsistent ops es)"

definition topArtists_of :: "'n engine \<Rightarrow> 'n stats \<Rightarrow> (string \<times> counter) list" where
  "topArtists_of ops st = take 10 (rank ops (artistCount st))"

definition topTracks_of :: "'n stats \<Rightarrow> track_tuple list" where
  "topTracks_of st = take 10 (sort_descending tuple_popularity (trackPopularity st))"

text \<open>
  \<^verbatim>\<open>
  const genreCount = {};
  Object.values(artistsMap).forEach(a => {
    (a.genres || []).forEach(g => { genreCount[g] = (genreCount[g] || 0) + 1; });
  });
  const topGenres = Object.entries(genreCount).sort((a,b)=>b[1]-a[1]).slice(0,10)
    .map(([g,c])=>({genre:g,count:c}));
  \<close>
\<close>

definition genreCount_of :: "artist js_object \<Rightarrow> counter js_object" where
  "genreCount_of artistsMap =
     foldl (\<lambda>genreCount a. foldl bump genreCount (or_empty (artist_genres a))) []
       (map snd artistsMap)"

definition topGenres_of :: "'n engine \<Rightarrow> artist js_object \<Rightarrow> (string \<times> counter) list" where
  "topGenres_of ops artistsMap = take 10 (rank ops (genreCount_of artistsMap))"

subsection \<open>The result\<close>

record 'n analysis_result =
  result_id :: "string nullable"
  result_name :: "string nullable"
  result_owner :: "string nullable"
  total_tracks :: nat
  duration_ms :: int
  duration_human :: string
  result_image :: "string nullable"
  avg_features :: "(string \<times> 'n) list"
  features_count :: nat
  top_artists :: "(string \<times> counter) list"
  top_tracks :: "track_tuple list"
  top_genres :: "(string \<times> counter) list"

text \<open>\<open>playlist.owner?.display_name || playlist.owner?.id\<close>\<close>

fun owner_label :: "owner nullable \<Rightarrow> string nullable" where
  "owner_label (Val ow) = or_str (owner_display_name ow) (owner_id ow)"
| "owner_label _ = Undefined"

text \<open>\<open>playlist.images?.[0]?.url || null\<close>\<close>

fun first_image :: "image nullable list nullable \<Rightarrow> string nullable" where
  "first_image (Val (Val img # _)) = or_str (image_url img) Null"
| "first_image _ = Null"

definition build_result ::
  "'n engine \<Rightarrow> playlist \<Rightarrow> track list \<Rightarrow> artist js_object \<Rightarrow> 'n stats
     \<Rightarrow> 'n analysis_result" where
  "build_result ops pl tracks artistsMap st =
     \<lparr>result_id = playlist_id pl,
      result_name = playlist_name pl,
      result_owner = owner_label (playlist_owner pl),
      total_tracks = length tracks,
      duration_ms = totalDurationMs st,
      duration_human = formatDuration (totalDurationMs st),
      result_image = first_image (playlist_images pl),
      avg_features = avgFeatures_of ops st,
      features_count = featuresCount st,
      top_artists = topArtists_of ops st,
      top_tracks = topTracks_of st,
      top_genres = topGenres_of ops artistsMap\<rparr>"

subsection \<open>The route handler\<close>

text \<open>
  What the route sends: \<open>res.json(result)\<close>, or in the \<open>catch\<close> block
  \<^verbatim>\<open>
  if (err.message === 'not_authenticated')
    return res.status(401).json({ error: 'not_authenticated' });
  res.status(500).json({ error: 'analysis_failed', detail: err.response?.data || err.message });
  \<close>
\<close>

datatype 'n response =
    Result "'n analysis_result"
  | Failure nat string "string nullable"

definition on_error :: "exn \<Rightarrow> 'n response" where
  "on_error err =
     (if message err = ''not_authenticated'' then Failure 401 ''not_authenticated'' Undefined
      else Failure 500 ''analysis_failed'' (or_str (response_data err) (Val (message err))))"

text \<open>The \<open>try\<close> block, stage by stage; a stage that throws ends it.\<close>

definition analyze_try ::
  "'n engine \<Rightarrow> 'n upstream \<Rightarrow> session nullable \<Rightarrow> string
     \<Rightarrow> ((exn + 'n analysis_result) \<times> request list) option" where
  "analyze_try ops up req_session playlistId =
     (case ensureAccessToken up req_session of
        (Inl e, reqs0) \<Rightarrow> Some (Inl e, reqs0)
      | (Inr (token, _), reqs0) \<Rightarrow>
     (case get_playlist up reqs0 token playlistId of
        Inl e \<Rightarrow> Some (Inl (AxiosError e), reqs0 @ [GetPlaylist token playlistId])
      | Inr pl \<Rightarrow>
     (case fetchTracks up token (Val (tracks_url playlistId)) []
             (reqs0 @ [GetPlaylist token playlistId]) of
        None \<Rightarrow> None
      | Some (Inl e, reqs1) \<Rightarrow> Some (Inl e, reqs1)
      | Some (Inr tracks, reqs1) \<Rightarrow>
     (case artistIds_of [] tracks of
        Inl e \<Rightarrow> Some (Inl e, reqs1)
      | Inr artistIds \<Rightarrow>
     (case fetchAudioFeatures up token (trackIds_of tracks) 0 empty_features reqs1 of
        (Inl e, reqs2) \<Rightarrow> Some (Inl e, reqs2)
      | (Inr audioFeatures, reqs2) \<Rightarrow>
     (case fetchArtists up token (uniqueArtistIds_of artistIds) 0 [] reqs2 of
        (Inl e, reqs3) \<Rightarrow> Some (Inl e, reqs3)
      | (Inr artistsMap, reqs3) \<Rightarrow>
     (case aggregate ops audioFeatures (initial_stats ops) tracks of
        Inl e \<Rightarrow> Some (Inl e, reqs3)
      | Inr st \<Rightarrow> Some (Inr (build_result ops pl tracks artistsMap st), reqs3))))))))"

definition analyze ::
  "'n engine \<Rightarrow> 'n upstream \<Rightarrow> session nullable \<Rightarrow> string
     \<Rightarrow> ('n response \<times> request list) option" where
  "analyze ops up req_session playlistId =
     map_option (\<lambda>(outcome, reqs). (case outcome of Inl e \<Rightarrow> on_error e | Inr r \<Rightarrow> Result r, reqs))
       (analyze_try ops up req_session playlistId)"

section \<open>Notions used to state the properties\<close>

text \<open>
  The order in which \<open>Object.entries\<close> lists the properties written with the names
  \<open>ks\<close>, in that order, into an empty object: the array indices in ascending numeric
  order, then the other names in the order of their first occurrence.
\<close>

definition enumeration_order :: "string list \<Rightarrow> string list" where
  "enumeration_order ks =
     sort_key digits_value (filter is_array_index (unique ks))
     @ filter (\<lambda>k. \<not> is_array_index k) (unique ks)"

text \<open>
  The names under which the artist credits of a track list are counted, one per credit
  that has an id, in playlist order.
\<close>

definition credit_keys :: "artist_ref nullable list \<Rightarrow> string list" where
  "credit_keys as =
     List.map_filter
       (\<lambda>x. case x of
              Val a \<Rightarrow> if truthy_str (ref_id a)
                       then Some (property_key (or_str (ref_name a) (ref_id a))) else None
            | _ \<Rightarrow> None) as"

definition credited_keys :: "track list \<Rightarrow> string list" where
  "credited_keys tracks = concat (map (\<lambda>t. credit_keys (or_empty (track_artists t))) tracks)"

text \<open>The tuple pushed onto \<open>trackPopularity\<close> for a track whose artists can be read.\<close>

definition tuple_of :: "track \<Rightarrow> track_tuple" where
  "tuple_of t =
     \<lparr>tuple_id = track_id t, tuple_name = track_name t,
      tuple_artists =
        join '', '' (case artists_map_name (track_artists t) of Inr names \<Rightarrow> names | Inl _ \<Rightarrow> []),
      tuple_popularity = or_zero (track_popularity t)\<rparr>"

text \<open>
  What \<open>audioFeatures[t.id]\<close> finds for the tracks for which it finds something truthy,
  in playlist order (a track that is listed twice contributes twice): the record, or
  \<open>None\<close> for a value that is no record. Then the records among these, and the values
  a field has in a list of records where it is present.
\<close>

definition feature_hits ::
  "'n engine \<Rightarrow> 'n features_table \<Rightarrow> track list \<Rightarrow> 'n audio_feature option list" where
  "feature_hits ops audioFeatures tracks =
     List.map_filter
       (\<lambda>t. case audioFeatures_get ops audioFeatures (property_key (track_id t)) of
              Record af \<Rightarrow> Some (Some af)
            | Other \<Rightarrow> Some None
            | Nothing \<Rightarrow> None) tracks"

definition feature_records ::
  "'n engine \<Rightarrow> 'n features_table \<Rightarrow> track list \<Rightarrow> 'n audio_feature list" where
  "feature_records ops audioFeatures tracks =
     List.map_filter (\<lambda>hit. hit) (feature_hits ops audioFeatures tracks)"

text \<open>
  The tracks that have a feature record of their own in the table, which is what
  \<open>audioFeatures[t.id]\<close> is meant to find.
\<close>

definition tracks_with_record :: "'n features_table \<Rightarrow> track list \<Rightarrow> track list" where
  "tracks_with_record audioFeatures tracks =
     filter (\<lambda>t. obj_get (own_features audioFeatures) (property_key (track_id t)) \<noteq> None) tracks"

definition present_values :: "string \<Rightarrow> 'n audio_feature list \<Rightarrow> 'n list" where
  "present_values k records =
     List.map_filter (\<lambda>af. case af_field af k of Val v \<Rightarrow> Some v | _ \<Rightarrow> None) records"

text \<open>The genre labels met by the genre count, in the order of \<open>Object.values(artistsMap)\<close>.\<close>

definition genre_labels :: "artist js_object \<Rightarrow> string list" where
  "genre_labels artistsMap = concat (map (\<lambda>(k, a). or_empty (artist_genres a)) artistsMap)"

text \<open>The tracks that the items of a page carry: what the page loop pushes.\<close>

definition present_tracks :: "track nullable list \<Rightarrow> track list" where
  "present_tracks items = List.map_filter (\<lambda>x. case x of Val t \<Rightarrow> Some t | _ \<Rightarrow> None) items"

text \<open>
  The pages the provider serves from a link on, each answered successfully, up to the
  page that has no next link.
\<close>

fun page_chain ::
  "'n upstream \<Rightarrow> string nullable \<Rightarrow> request list \<Rightarrow> string nullable \<Rightarrow> tracks_page list \<Rightarrow> bool" where
  "page_chain up token reqs next [] = (\<not> truthy_str next)"
| "page_chain up token reqs next (p # ps) =
     (truthy_str next \<and> get_tracks up reqs token (property_key next) = Inr p \<and>
      page_chain up token (reqs @ [GetTracks token (property_key next)]) (page_next p) ps)"

text \<open>
  The pages the provider serves from a link on, each answered successfully, followed by a
  request for the next page that fails with \<open>e\<close>.
\<close>

fun failing_page_chain ::
  "'n upstream \<Rightarrow> string nullable \<Rightarrow> request list \<Rightarrow> string nullable \<Rightarrow> tracks_page list
     \<Rightarrow> axios_error \<Rightarrow> bool" where
  "failing_page_chain up token reqs next [] e =
     (truthy_str next \<and> get_tracks up reqs token (property_key next) = Inl e)"
| "failing_page_chain up token reqs next (p # ps) e =
     (truthy_str next \<and> get_tracks up reqs token (property_key next) = Inr p \<and>
      failing_page_chain up token (reqs @ [GetTracks token (property_key next)]) (page_next p) ps e)"

text \<open>The contiguous chunks of at most \<open>n\<close> elements into which a list splits.\<close>

fun chunks :: "nat \<Rightarrow> 'a list \<Rightarrow> 'a list list" where
  "chunks n [] = []"
| "chunks n (x # xs) =
     (if n = 0 then [] else take n (x # xs) # chunks n (drop n (x # xs)))"

text \<open>The \<open>ids=\<close> parameter of the request for a chunk of ids.\<close>

definition batch_of :: "string list \<Rightarrow> string" where
  "batch_of chunk = join '','' (map Val chunk)"

text \<open>
  Every request of a list was answered successfully, each after the requests before it;
  and what holds of the outcome of a stage and the requests made up to its end: a
  request that failed is the last one made, and its failure is what the stage threw.
\<close>

definition answered_ok :: "'n upstream \<Rightarrow> request list \<Rightarrow> bool" where
  "answered_ok up reqs = (\<forall>i < length reqs. answer_failure up (take i reqs) (reqs ! i) = None)"

definition settled :: "'n upstream \<Rightarrow> exn + 'a \<Rightarrow> request list \<Rightarrow> bool" where
  "settled up outcome reqs =
     (case outcome of
        Inl (AxiosError e) \<Rightarrow>
          reqs \<noteq> [] \<and> answered_ok up (butlast reqs) \<and>
          answer_failure up (butlast reqs) (last reqs) = Some e
      | _ \<Rightarrow> answered_ok up reqs)"

text \<open>What the route answered, when it answered with an analysis.\<close>

definition analysis_of :: "('n response \<times> request list) option \<Rightarrow> 'n analysis_result option" where
  "analysis_of outcome = (case outcome of Some (Result r, _) \<Rightarrow> Some r | _ \<Rightarrow> None)"

section \<open>Example inputs\<close>

text \<open>
  A session whose token is still valid, a playlist header, and a provider that serves
  the given items on a single page, answers every audio-feature batch with \<open>features\<close>
  and every artist batch with \<open>resolved\<close>. Its numbers are exact fractions.
\<close>

definition example_session :: "session nullable" where
  "example_session =
     Val \<lparr>access_token = Val ''token'', refresh_token = Val ''refresh'', expires_in = Val 100000\<rparr>"

definition example_playlist :: playlist where
  "example_playlist =
     \<lparr>playlist_id = Val ''p1'', playlist_name = Val ''Mix'',
      playlist_owner = Val \<lparr>owner_display_name = Null, owner_id = Val ''ann''\<rparr>,
      playlist_images = Val []\<rparr>"

definition single_page ::
  "track nullable list \<Rightarrow> rat audio_feature nullable list \<Rightarrow> artist nullable list \<Rightarrow> rat upstream" where
  "single_page items features resolved =
     \<lparr>post_token = (\<lambda>_ _. Inl NetworkError),
      get_playlist = (\<lambda>_ _ _. Inr example_playlist),
      get_tracks = (\<lambda>_ _ _. Inr \<lparr>page_items = items, page_next = Null\<rparr>),
      get_audio_features = (\<lambda>_ _ _. Inr (Val features)),
      get_artists = (\<lambda>_ _ _. Inr (Val resolved)),
      date_now = (\<lambda>_. 0)\<rparr>"

definition credit :: "string \<Rightarrow> string \<Rightarrow> artist_ref nullable" where
  "credit i n = Val \<lparr>ref_id = Val i, ref_name = Val n\<rparr>"

definition example_track :: "string nullable \<Rightarrow> int \<Rightarrow> artist_ref nullable list nullable \<Rightarrow> track" where
  "example_track i popularity credits =
     \<lparr>track_id = i, track_name = Val ''song'', track_duration_ms = Val 180000,
      track_popularity = Val popularity, track_artists = credits\<rparr>"

text \<open>
  The records of two artists: one with the genres pop and indie, one with the genre pop.
\<close>

definition shared_artist_records :: "artist nullable list" where
  "shared_artist_records =
     [Val \<lparr>artist_id = Val ''a1'', artist_genres = Val [''pop'', ''indie'']\<rparr>,
      Val \<lparr>artist_id = Val ''b2'', artist_genres = Val [''pop'']\<rparr>]"

text \<open>Three tracks by one artist whose record has the single genre rock.\<close>

definition one_artist_items :: "track nullable list" where
  "one_artist_items =
     [Val (example_track (Val ''t1'') 50 (Val [credit ''a1'' ''Ann''])),
      Val (example_track (Val ''t2'') 50 (Val [credit ''a1'' ''Ann''])),
      Val (example_track (Val ''t3'') 50 (Val [credit ''a1'' ''Ann'']))]"

definition one_artist_records :: "artist nullable list" where
  "one_artist_records = [Val \<lparr>artist_id = Val ''a1'', artist_genres = Val [''rock'']\<rparr>]"


text \<open>
  A page with a local track (no id), two placeholders and an ordinary track; and a
  provider that serves it as the second of two pages.
\<close>

definition placeholder_items :: "track nullable list" where
  "placeholder_items =
     [Val (example_track Null 0 (Val [])), Null, Undefined,
      Val (example_track (Val ''t2'') 50 (Val [credit ''a1'' ''Ann'']))]"

definition two_pages :: "rat upstream" where
  "two_pages =
     (single_page [] [] [])
       \<lparr>get_tracks := (\<lambda>_ _ url.
          if url = ''page2'' then Inr \<lparr>page_items = placeholder_items, page_next = Null\<rparr>
          else Inr \<lparr>page_items = [Val (example_track (Val ''t1'') 50 (Val [credit ''a1'' ''Ann'']))],
                    page_next = Val ''page2''\<rparr>)\<rparr>"

text \<open>A provider whose playlist endpoint answers 503.\<close>

definition unavailable :: "rat upstream" where
  "unavailable =
     (single_page [] [] [])
       \<lparr>get_playlist := (\<lambda>_ _ _. Inl (BadStatus 503 (Val ''Service Unavailable'')))\<rparr>"

text \<open>A track that has no \<open>artists\<close> field.\<close>

definition artistless_items :: "track nullable list" where
  "artistless_items = [Val (example_track (Val ''t1'') 50 Undefined)]"

text \<open>
  A provider that serves one page with a next link and answers the request for the next
  page with 429.
\<close>

definition second_page_fails :: "rat upstream" where
  "second_page_fails =
     (single_page [] [] [])
       \<lparr>get_tracks := (\<lambda>_ _ url.
          if url = ''page2'' then Inl (BadStatus 429 (Val ''Too Many Requests''))
          else Inr \<lparr>page_items = [Val (example_track (Val ''t1'') 50 (Val [credit ''a1'' ''Ann'']))],
                    page_next = Val ''page2''\<rparr>)\<rparr>"




text \<open>A track that lasts 3725999 milliseconds, and one that lasts \<open>2 ^ 60\<close>.\<close>

definition hour_items :: "track nullable list" where
  "hour_items =
     [Val \<lparr>track_id = Val ''t1'', track_name = Val ''song'',
           track_duration_ms = Val 3725999, track_popularity = Val 50,
           track_artists = Val [credit ''a1'' ''Ann'']\<rparr>]"

definition long_items :: "track nullable list" where
  "long_items =
     [Val \<lparr>track_id = Val ''t1'', track_name = Val ''song'',
           track_duration_ms = Val 1152921504606846976, track_popularity = Val 50,
           track_artists = Val [credit ''a1'' ''Ann'']\<rparr>]"

section \<open>Properties of floating-point rounding\<close>

lemma round_half_even_near: "\<bar>of_int (round_half_even y) - y\<bar> \<le> 1 / 2"
proof -
  define d where "d = y - of_int \<lfloor>y\<rfloor>"
  have d: "0 \<le> d" "d < 1"
    unfolding d_def by linarith+
  have y: "y = of_int \<lfloor>y\<rfloor> + d"
    by (simp add: d_def)
  have "\<bar>of_int (if d < 1 / 2 then \<lfloor>y\<rfloor> else if 1 / 2 < d then \<lfloor>y\<rfloor> + 1
                   else if even \<lfloor>y\<rfloor> then \<lfloor>y\<rfloor> else \<lfloor>y\<rfloor> + 1) - (of_int \<lfloor>y\<rfloor> + d)\<bar> \<le> 1 / 2"
    using d by auto
  then show ?thesis
    unfolding round_half_even_def Let_def d_def [symmetric] using y by simp
qed

lemma round_half_even_up:
  assumes "of_int f + 1 / 2 < y" "y < of_int f + 1"
  shows "round_half_even y = f + 1"
proof -
  from assms have "\<lfloor>y\<rfloor> = f"
    by (simp add: floor_eq_iff)
  with assms show ?thesis
    by (simp add: round_half_even_def Let_def)
qed

lemma round_half_even_down:
  assumes "of_int f \<le> y" "y < of_int f + 1 / 2"
  shows "round_half_even y = f"
proof -
  from assms have "\<lfloor>y\<rfloor> = f"
    by (simp add: floor_eq_iff)
  with assms show ?thesis
    by (simp add: round_half_even_def Let_def)
qed

lemma round_half_even_of_int [simp]: "round_half_even (of_int n) = n"
  by (simp add: round_half_even_def)

lemma binade_bounds:
  assumes "0 < x"
  shows "2 powi binade x \<le> x \<and> x < 2 powi (binade x + 1)"
proof (cases "1 \<le> x")
  case True
  then have pos: "0 < \<lfloor>x\<rfloor>" by linarith
  from bitlen_bounds [OF pos]
  have lo: "2 ^ nat (bitlen \<lfloor>x\<rfloor> - 1) \<le> \<lfloor>x\<rfloor>" and hi: "\<lfloor>x\<rfloor> < 2 ^ nat (bitlen \<lfloor>x\<rfloor>)"
    by simp_all
  have b1: "1 \<le> bitlen \<lfloor>x\<rfloor>"
    using pos by (simp add: bitlen_ge_iff_power)
  have "(2::rat) ^ nat (bitlen \<lfloor>x\<rfloor> - 1) \<le> of_int \<lfloor>x\<rfloor>"
    using lo by simp
  also have "\<dots> \<le> x" by linarith
  finally have 1: "(2::rat) ^ nat (bitlen \<lfloor>x\<rfloor> - 1) \<le> x" .
  have "\<lfloor>x\<rfloor> + 1 \<le> 2 ^ nat (bitlen \<lfloor>x\<rfloor>)"
    using hi by simp
  then have "(of_int (\<lfloor>x\<rfloor> + 1) :: rat) \<le> 2 ^ nat (bitlen \<lfloor>x\<rfloor>)"
    by (simp only: of_int_le_numeral_power_cancel_iff)
  moreover have "x < of_int (\<lfloor>x\<rfloor> + 1)" by linarith
  ultimately have 2: "x < (2::rat) ^ nat (bitlen \<lfloor>x\<rfloor>)"
    by (rule less_le_trans [rotated])
  from True b1 1 2 show ?thesis
    by (simp add: binade_def power_int_def nat_diff_distrib)
next
  case False
  define y where "y = 1 / x"
  define n where "n = \<lceil>y\<rceil>"
  from False assms have y1: "1 < y"
    by (simp add: y_def)
  then have n2: "2 \<le> n" unfolding n_def by linarith
  then have pos: "0 < n - 1" by simp
  from bitlen_bounds [OF pos]
  have lo: "2 ^ nat (bitlen (n - 1) - 1) \<le> n - 1" and hi: "n - 1 < 2 ^ nat (bitlen (n - 1))"
    by simp_all
  have b1: "1 \<le> bitlen (n - 1)"
    using pos by (simp add: bitlen_ge_iff_power)
  have "n \<le> 2 ^ nat (bitlen (n - 1))"
    using hi by simp
  then have "(of_int n :: rat) \<le> 2 ^ nat (bitlen (n - 1))"
    by (simp only: of_int_le_numeral_power_cancel_iff)
  moreover have "y \<le> of_int n" unfolding n_def by linarith
  ultimately have yhi: "y \<le> 2 ^ nat (bitlen (n - 1))"
    by (rule order_trans [rotated])
  have "(2 ^ nat (bitlen (n - 1) - 1) :: rat) \<le> of_int (n - 1)"
    using lo by (simp only: numeral_power_le_of_int_cancel_iff)
  moreover have "of_int (n - 1) < y" unfolding n_def by linarith
  ultimately have ylo: "2 ^ nat (bitlen (n - 1) - 1) < y"
    by (rule le_less_trans)
  have x: "x = 1 / y" using assms by (simp add: y_def)
  have e: "binade x = - bitlen (n - 1)"
    using False by (simp add: binade_def n_def y_def)
  have p1: "(2::rat) powi (- bitlen (n - 1)) = 1 / 2 ^ nat (bitlen (n - 1))"
    using b1 by (simp add: power_int_def field_simps)
  have p2: "(2::rat) powi (- bitlen (n - 1) + 1) = 1 / 2 ^ nat (bitlen (n - 1) - 1)"
  proof (cases "bitlen (n - 1) = 1")
    case True
    then show ?thesis by simp
  next
    case False
    with b1 have "\<not> 0 \<le> - bitlen (n - 1) + 1" by simp
    moreover have "nat (- (- bitlen (n - 1) + 1)) = nat (bitlen (n - 1) - 1)" by simp
    ultimately show ?thesis
      by (simp add: power_int_def field_simps)
  qed
  have "1 / 2 ^ nat (bitlen (n - 1)) \<le> 1 / y"
    using yhi y1 by (simp add: frac_le)
  moreover have "1 / y < 1 / 2 ^ nat (bitlen (n - 1) - 1)"
    using ylo y1 by (simp add: frac_less2)
  ultimately have "1 / 2 ^ nat (bitlen (n - 1)) \<le> x \<and> x < 1 / 2 ^ nat (bitlen (n - 1) - 1)"
    by (simp only: x)
  then show ?thesis
    by (simp only: e p1 p2)
qed

lemma powi_less_cancel: "(2::rat) powi m < 2 powi n \<Longrightarrow> m < n"
proof (rule ccontr)
  assume "2 powi m < (2::rat) powi n" "\<not> m < n"
  then have "(2::rat) powi n \<le> 2 powi m"
    by (intro power_int_increasing) simp_all
  with \<open>2 powi m < (2::rat) powi n\<close> show False by simp
qed

lemma double_of_pos:
  assumes "0 < x"
  shows "double_of x =
           of_int (round_half_even (x / 2 powi (max (binade x) (- 1022) - 52)))
           * 2 powi (max (binade x) (- 1022) - 52)"
  using assms by (simp add: double_of_def Let_def)

lemma double_of_near:
  assumes "0 < x"
  shows "\<bar>double_of x - x\<bar> \<le> 2 powi (max (binade x) (- 1022) - 52) / 2"
proof -
  define u :: rat where "u = 2 powi (max (binade x) (- 1022) - 52)"
  have u: "0 < u" by (simp add: u_def)
  have "\<bar>of_int (round_half_even (x / u)) - x / u\<bar> * u \<le> 1 / 2 * u"
    using round_half_even_near [of "x / u"] u by (intro mult_right_mono) simp_all
  also have "\<bar>of_int (round_half_even (x / u)) - x / u\<bar> * u =
             \<bar>of_int (round_half_even (x / u)) * u - x\<bar>"
  proof -
    have "of_int (round_half_even (x / u)) * u - x = (of_int (round_half_even (x / u)) - x / u) * u"
      using u by (simp add: field_simps)
    then show ?thesis
      using u by (simp add: abs_mult)
  qed
  finally show ?thesis
    unfolding double_of_pos [OF assms] u_def [symmetric] by simp
qed

lemma double_of_int_exact:
  assumes "0 < k" "k < 2 ^ 53"
  shows "double_of (of_int k) = of_int k"
proof -
  define x :: rat where "x = of_int k"
  have x: "0 < x" "x < 2 ^ 53"
    using assms by (simp_all add: x_def)
  define e where "e = max (binade x) (- 1022)"
  have "2 powi binade x < (2::rat) powi 53"
    using binade_bounds [OF x(1)] x(2) by simp
  then have "binade x < 53"
    by (rule powi_less_cancel)
  then have e: "e \<le> 52" by (simp add: e_def)
  have "(2::rat) powi (e - 52) = 1 / 2 ^ nat (52 - e)"
    using e by (simp add: power_int_def field_simps)
  then have u: "(2::rat) powi (e - 52) = 1 / of_int (2 ^ nat (52 - e))"
    by simp
  have "x / 2 powi (e - 52) = of_int (k * 2 ^ nat (52 - e))"
    unfolding u by (simp add: x_def)
  then have "round_half_even (x / 2 powi (e - 52)) = k * 2 ^ nat (52 - e)"
    by (simp only: round_half_even_of_int)
  then have "double_of x = of_int (k * 2 ^ nat (52 - e)) * (1 / of_int (2 ^ nat (52 - e)))"
    unfolding double_of_pos [OF x(1)] e_def [symmetric] u by simp
  also have "\<dots> = x"
    by (simp add: x_def)
  finally show ?thesis by (simp add: x_def)
qed

lemma double_of_quotient_near:
  assumes "0 < a" "a < 2 ^ 53" "0 < b" "b < 2 ^ 53"
  shows "\<bar>double_of (of_int a / of_int b) - of_int a / of_int b\<bar> < 1 / of_int b"
proof -
  define x :: rat where "x = of_int a / of_int b"
  have x: "0 < x" using assms by (simp add: x_def)
  have b: "(0::rat) < of_int b" "(of_int b :: rat) < 2 ^ 53" "(of_int a :: rat) < 2 ^ 53"
    using assms by simp_all
  have "2 powi (max (binade x) (- 1022) - 52) / 2 < 1 / (of_int b :: rat)"
  proof (cases "- 1022 \<le> binade x")
    case True
    then have "(2::rat) powi (max (binade x) (- 1022) - 52) = 2 powi binade x / 2 ^ 52"
      by (simp add: max_def power_int_diff)
    also have "\<dots> \<le> x / 2 ^ 52"
      using binade_bounds [OF x] by (simp add: divide_right_mono)
    finally have "2 powi (max (binade x) (- 1022) - 52) / 2 \<le> x / 2 ^ 53"
      by simp
    also have "\<dots> = (of_int a / 2 ^ 53) / of_int b"
      by (simp add: x_def)
    also have "\<dots> < 1 / of_int b"
      using b by (intro divide_strict_right_mono) simp_all
    finally show ?thesis .
  next
    case False
    then have "(2::rat) powi (max (binade x) (- 1022) - 52) = 2 powi (- 1074)"
      by (simp add: max_def)
    also have "\<dots> \<le> 2 powi (- 53)"
      by (intro power_int_increasing) simp_all
    also have "\<dots> = 1 / 2 ^ 53"
      by (simp add: power_int_def field_simps)
    finally have "2 powi (max (binade x) (- 1022) - 52) / 2 < 1 / (2 ^ 53 :: rat)"
      by simp
    also have "\<dots> < 1 / of_int b"
      using b by (intro divide_strict_left_mono) simp_all
    finally show ?thesis .
  qed
  with double_of_near [OF x] show ?thesis
    unfolding x_def by linarith
qed

lemma js_floor_div_exact:
  assumes "0 \<le> a" "a < 2 ^ 53" "0 < b" "b < 2 ^ 53"
  shows "js_floor_div a b = a div b"
proof (cases "a = 0")
  case True
  then show ?thesis by (simp add: js_floor_div_def double_of_def)
next
  case False
  with assms have a: "0 < a" by simp
  define q where "q = a div b"
  define r where "r = a mod b"
  have r: "0 \<le> r" "r < b" and a_eq: "a = q * b + r"
    using assms by (simp_all add: q_def r_def)
  have bpos: "(0::rat) < of_int b" using assms by simp
  have x: "(of_int a :: rat) / of_int b = of_int q + of_int r / of_int b"
    using bpos by (simp add: a_eq field_simps)
  show ?thesis
  proof (cases "r = 0")
    case True
    then have xq: "(of_int a :: rat) / of_int b = of_int q"
      using x by simp
    have "0 < q"
      using a assms True a_eq by (metis add.right_neutral zero_less_mult_pos2)
    moreover have "q \<le> a"
      using a assms by (simp add: q_def int_div_le_self)
    ultimately have "double_of (of_int q) = of_int q"
      using assms by (intro double_of_int_exact) simp_all
    then show ?thesis
      by (simp add: js_floor_div_def xq q_def)
  next
    case False
    with r have r1: "1 \<le> r" "r \<le> b - 1" by simp_all
    have lo: "1 / of_int b \<le> (of_int r :: rat) / of_int b"
      using r1 bpos by (simp add: divide_right_mono)
    have "(of_int r :: rat) / of_int b \<le> of_int (b - 1) / of_int b"
      using r1 bpos by (intro divide_right_mono) simp_all
    also have "\<dots> = 1 - 1 / of_int b"
      using bpos by (simp add: field_simps)
    finally have hi: "(of_int r :: rat) / of_int b \<le> 1 - 1 / of_int b" .
    from double_of_quotient_near [OF a assms(2-4)] lo hi
    have "of_int q < double_of (of_int a / of_int b)"
      and "double_of (of_int a / of_int b) < of_int q + 1"
      unfolding x by linarith+
    then have "\<lfloor>double_of (of_int a / of_int b)\<rfloor> = q"
      by (simp add: floor_eq_iff)
    then show ?thesis
      by (simp add: js_floor_div_def q_def)
  qed
qed

lemma binade_eqI:
  assumes "2 powi e \<le> x" "x < 2 powi (e + 1)"
  shows "binade x = e"
proof -
  have "(0::rat) < 2 powi e" by simp
  with assms have x: "0 < x" by linarith
  from binade_bounds [OF x] assms
  have lt: "2 powi binade x < (2::rat) powi (e + 1)"
    and gt: "(2::rat) powi e < 2 powi (binade x + 1)"
    by linarith+
  show ?thesis
    using powi_less_cancel [OF lt] powi_less_cancel [OF gt] by simp
qed

lemma js_floor_div_2_60: "js_floor_div 1152921504606846976 1000 = 1152921504606847"
proof -
  define x :: rat where "x = 1152921504606846976 / 1000"
  have x: "0 < x" by (simp add: x_def)
  have e: "binade x = 50"
    by (rule binade_eqI) (simp_all add: x_def)
  have u: "(2::rat) powi (max 50 (- 1022) - 52) = 1 / 4"
    by (simp add: power_int_def power2_eq_square)
  have "round_half_even (x / (1 / 4)) = 4611686018427387 + 1"
    by (rule round_half_even_up) (simp_all add: x_def)
  then have "double_of x = 1152921504606847"
    unfolding double_of_pos [OF x] e u by simp
  then show ?thesis
    by (simp add: js_floor_div_def x_def)
qed

lemma js_add_2_60: "js_add 0 1152921504606846976 = 1152921504606846976"
proof -
  define x :: rat where "x = 1152921504606846976"
  have x: "0 < x" by (simp add: x_def)
  have e: "binade x = 60"
    by (rule binade_eqI) (simp_all add: x_def)
  have u: "(2::rat) powi (max 60 (- 1022) - 52) = 256"
    by simp
  have "x / 256 = of_int 4503599627370496"
    by (simp add: x_def)
  then have "round_half_even (x / 256) = 4503599627370496"
    by (simp only: round_half_even_of_int)
  then have "double_of x = 1152921504606846976"
    unfolding double_of_pos [OF x] e u by simp
  then show ?thesis
    by (simp add: js_add_def x_def)
qed

lemma js_add_exact:
  assumes "0 \<le> a + b" "a + b < 2 ^ 53"
  shows "js_add a b = a + b"
proof (cases "a + b = 0")
  case True
  then show ?thesis by (simp add: js_add_def double_of_def)
next
  case False
  with assms have "0 < a + b" by simp
  from double_of_int_exact [OF this assms(2)] show ?thesis
    by (simp add: js_add_def)
qed

lemma formatDuration_2_60: "formatDuration 1152921504606846976 = ''320255973501h 54m 7s''"
proof -
  have d2: "js_floor_div 1152921504606847 3600 = 1152921504606847 div 3600"
    by (rule js_floor_div_exact) simp_all
  have d3: "js_floor_div 3247 60 = 3247 div 60"
    by (rule js_floor_div_exact) simp_all
  have r: "js_rem 1152921504606847 3600 = 3247" "js_rem 1152921504606847 60 = 7"
    by (simp_all add: js_rem_def)
  have n: "nat_to_string 320255973501 = ''320255973501''" "nat_to_string 54 = ''54''"
    "nat_to_string 7 = ''7''"
    by (simp_all add: nat_to_string.simps digit_char_def)
  show ?thesis
    unfolding formatDuration_def Let_def js_floor_div_2_60 d2 r d3
    by (simp add: number_to_string_def n)
qed

section \<open>Properties of duration formatting\<close>

lemma digit_cases:
  assumes "d < (10::nat)"
  obtains "d = 0" | "d = 1" | "d = 2" | "d = 3" | "d = 4"
    | "d = 5" | "d = 6" | "d = 7" | "d = 8" | "d = 9"
proof -
  from assms have "d = 0 \<or> d = 1 \<or> d = 2 \<or> d = 3 \<or> d = 4
      \<or> d = 5 \<or> d = 6 \<or> d = 7 \<or> d = 8 \<or> d = 9"
    by arith
  then show thesis using that by blast
qed

lemma of_char_digit_char: "d < 10 \<Longrightarrow> (of_char (digit_char d) :: nat) = 48 + d"
  by (erule digit_cases) (simp_all add: digit_char_def)

lemma is_digit_digit_char: "d < 10 \<Longrightarrow> is_digit (digit_char d)"
  by (simp add: is_digit_def of_char_digit_char)

lemma nat_to_string_digits: "\<forall>c \<in> set (nat_to_string n). is_digit c"
proof (induction n rule: nat_to_string.induct)
  case (1 n)
  show ?case
  proof (cases "n < 10")
    case True
    then show ?thesis
      by (subst nat_to_string.simps) (simp add: is_digit_digit_char)
  next
    case False
    with 1 show ?thesis
      by (subst nat_to_string.simps) (simp add: is_digit_digit_char)
  qed
qed

lemma nat_to_string_nonempty: "nat_to_string n \<noteq> []"
  by (subst nat_to_string.simps) simp

lemma digits_value_snoc:
  "digits_value (ds @ [c]) = 10 * digits_value ds + (of_char c - 48)"
  by (simp add: digits_value_def)

lemma digits_value_nat_to_string: "digits_value (nat_to_string n) = n"
proof (induction n rule: nat_to_string.induct)
  case (1 n)
  show ?case
  proof (cases "n < 10")
    case True
    then show ?thesis
      by (subst nat_to_string.simps) (simp add: digits_value_def of_char_digit_char)
  next
    case False
    with 1 have "digits_value (nat_to_string (n div 10)) = n div 10"
      by simp
    with False show ?thesis
      by (subst nat_to_string.simps) (simp add: digits_value_snoc of_char_digit_char)
  qed
qed

lemma read_component_nat_to_string:
  assumes "\<not> is_digit u"
  shows "read_component u (nat_to_string n @ u # rest) = Some (n, rest)"
proof -
  have tw: "takeWhile is_digit (nat_to_string n @ u # rest) = nat_to_string n"
    using assms nat_to_string_digits [of n] by (simp add: takeWhile_tail)
  have dw: "dropWhile is_digit (nat_to_string n @ u # rest) = u # rest"
    using assms nat_to_string_digits [of n] by (simp add: dropWhile_append3)
  show ?thesis
    unfolding read_component_def tw dw
    by (simp add: nat_to_string_nonempty digits_value_nat_to_string)
qed

lemma read_component_other_unit:
  assumes "\<not> is_digit u" and "u \<noteq> v"
  shows "read_component v (nat_to_string n @ u # rest) = None"
proof -
  have dw: "dropWhile is_digit (nat_to_string n @ u # rest) = u # rest"
    using assms nat_to_string_digits [of n] by (simp add: dropWhile_append3)
  show ?thesis
    unfolding read_component_def dw using assms by simp
qed

lemma unit_letters_not_digits:
  "\<not> is_digit CHR ''h''" "\<not> is_digit CHR ''m''" "\<not> is_digit CHR ''s''"
  by (simp_all add: is_digit_def)

lemma read_min_sec_format:
  "read_min_sec (nat_to_string m @ ''m '' @ nat_to_string sec @ ''s'') = Some (m, sec)"
proof -
  have 1: "read_component CHR ''m'' (nat_to_string m @ CHR ''m'' # (CHR '' '' # nat_to_string sec @ ''s''))
             = Some (m, CHR '' '' # nat_to_string sec @ ''s'')"
    by (rule read_component_nat_to_string) (rule unit_letters_not_digits)
  have 2: "read_component CHR ''s'' (nat_to_string sec @ CHR ''s'' # []) = Some (sec, [])"
    by (rule read_component_nat_to_string) (rule unit_letters_not_digits)
  show ?thesis
    unfolding read_min_sec_def using 1 2 by simp
qed

lemma parseDuration_with_hours:
  "parseDuration (nat_to_string h @ ''h '' @ nat_to_string m @ ''m '' @ nat_to_string sec @ ''s'')
     = Some (h, m, sec)"
proof -
  have 1: "read_component CHR ''h''
             (nat_to_string h @ CHR ''h'' # (CHR '' '' # nat_to_string m @ ''m '' @ nat_to_string sec @ ''s''))
           = Some (h, CHR '' '' # nat_to_string m @ ''m '' @ nat_to_string sec @ ''s'')"
    by (rule read_component_nat_to_string) (rule unit_letters_not_digits)
  show ?thesis
    unfolding parseDuration_def using 1 read_min_sec_format [of m sec] by simp
qed

lemma parseDuration_without_hours:
  "parseDuration (nat_to_string m @ ''m '' @ nat_to_string sec @ ''s'') = Some (0, m, sec)"
proof -
  have 1: "read_component CHR ''h'' (nat_to_string m @ CHR ''m'' # (CHR '' '' # nat_to_string sec @ ''s''))
             = None"
    by (rule read_component_other_unit) (simp_all add: unit_letters_not_digits)
  show ?thesis
    unfolding parseDuration_def using 1 read_min_sec_format [of m sec] by simp
qed

lemma formatDuration_nonneg:
  assumes "0 \<le> ms" "ms < 2 ^ 53"
  shows "formatDuration ms =
           (if 0 < nat ms div 1000 div 3600
            then nat_to_string (nat ms div 1000 div 3600) @ ''h '' else [])
           @ nat_to_string (nat ms div 1000 mod 3600 div 60) @ ''m ''
           @ nat_to_string (nat ms div 1000 mod 60) @ ''s''"
proof -
  define s where "s = ms div 1000"
  have s0: "0 \<le> s" using assms by (simp add: s_def pos_imp_zdiv_nonneg_iff)
  have "s \<le> ms"
    using assms by (cases "ms = 0") (simp_all add: s_def int_div_le_self)
  with assms have s53: "s < 2 ^ 53" by simp
  have sn: "nat ms div 1000 = nat s"
    using assms by (simp add: s_def nat_div_distrib)
  have r1: "js_rem s 3600 = s mod 3600" and r2: "js_rem s 60 = s mod 60"
    using s0 by (cases "s = 0"; simp add: js_rem_def sgn_if)+
  have d1: "js_floor_div ms 1000 = s"
    unfolding s_def using assms by (intro js_floor_div_exact) simp_all
  have d2: "js_floor_div s 3600 = s div 3600"
    using s0 s53 by (intro js_floor_div_exact) simp_all
  have "s mod 3600 < 3600" by simp
  also have "\<dots> < (2::int) ^ 53" by simp
  finally have d3: "js_floor_div (s mod 3600) 60 = s mod 3600 div 60"
    by (intro js_floor_div_exact) simp_all
  have h: "nat (s div 3600) = nat s div 3600"
    using s0 by (simp add: nat_div_distrib)
  have m: "nat (s mod 3600 div 60) = nat s mod 3600 div 60"
    using s0 by (simp add: nat_div_distrib nat_mod_distrib)
  have sec: "nat (s mod 60) = nat s mod 60"
    using s0 by (simp add: nat_mod_distrib)
  have hpos: "(0 < s div 3600) = (0 < nat s div 3600)"
    using s0 h by (metis zero_less_nat_eq)
  have nn: "\<not> s div 3600 < 0" "\<not> s mod 3600 div 60 < 0" "\<not> s mod 60 < 0"
    using s0 by (simp_all add: pos_imp_zdiv_nonneg_iff)
  show ?thesis
    unfolding formatDuration_def Let_def d1 d2 sn r1 r2 d3
    using nn by (simp add: number_to_string_def h m sec hpos)
qed

lemma hms_recombine: "(s::nat) div 3600 * 3600 + s mod 3600 div 60 * 60 + s mod 60 = s"
proof -
  have "s mod 3600 mod 60 = s mod 60"
    by (rule mod_mod_cancel) simp
  then have "s mod 3600 div 60 * 60 + s mod 60 = s mod 3600"
    by (metis div_mult_mod_eq)
  then show ?thesis
    by (metis add.assoc div_mult_mod_eq)
qed

section \<open>Dictionaries\<close>

lemma unique_snoc:
  "unique (xs @ [x]) = (if x \<in> set (unique xs) then unique xs else unique xs @ [x])"
  by (simp add: unique_def)

lemma set_unique [simp]: "set (unique xs) = set xs"
  by (induction xs rule: rev_induct) (auto simp: unique_snoc, simp add: unique_def)

lemma distinct_unique [simp]: "distinct (unique xs)"
  by (induction xs rule: rev_induct) (auto simp: unique_snoc, simp add: unique_def)

lemma unique_Nil [simp]: "unique [] = []"
  by (simp add: unique_def)

lemma array_index_inj:
  "is_array_index a \<Longrightarrow> is_array_index b \<Longrightarrow> digits_value a = digits_value b \<Longrightarrow> a = b"
  by (metis is_array_index_def)

lemma map_of_update_existing:
  "map_of (map (\<lambda>(k', v'). if k' = k then (k', v) else (k', v')) obj) =
     (if k \<in> fst ` set obj then (map_of obj)(k \<mapsto> v) else map_of obj)"
  by (induction obj) (auto simp: fun_eq_iff)

lemma map_fst_update_existing:
  "map fst (map (\<lambda>(k', v'). if k' = k then (k', v) else (k', v')) obj) = map fst obj"
  by (induction obj) auto

lemma map_of_insert_index_key:
  "k \<notin> fst ` set obj \<Longrightarrow> map_of (insert_index_key n k v obj) = (map_of obj)(k \<mapsto> v)"
  by (induction obj) (auto simp: fun_eq_iff)

lemma map_of_obj_set: "map_of (obj_set obj k v) = (map_of obj)(k \<mapsto> v)"
proof (cases "k \<in> fst ` set obj")
  case True
  then have "obj_get obj k \<noteq> None"
    by (simp add: obj_get_def map_of_eq_None_iff)
  with True show ?thesis
    by (simp add: obj_set_def map_of_update_existing)
next
  case False
  then have none: "obj_get obj k = None"
    by (simp add: obj_get_def map_of_eq_None_iff)
  show ?thesis
  proof (cases "is_array_index k")
    case True
    with none False show ?thesis
      by (simp add: obj_set_def map_of_insert_index_key)
  next
    case idx: False
    have "map_of (obj @ [(k, v)]) = (map_of obj)(k \<mapsto> v)"
      using none by (auto simp: obj_get_def fun_eq_iff map_add_def split: option.splits)
    with none idx show ?thesis
      by (simp add: obj_set_def)
  qed
qed

lemma obj_get_obj_set: "obj_get (obj_set obj k v) k' = (if k' = k then Some v else obj_get obj k')"
  by (simp add: obj_get_def map_of_obj_set)

lemma keys_insert_index_key:
  assumes "map fst obj = S @ O'" "\<forall>k' \<in> set S. is_array_index k'" "\<forall>k' \<in> set O'. \<not> is_array_index k'"
  shows "map fst (insert_index_key (digits_value k) k v obj) = insort_key digits_value k S @ O'"
  using assms
proof (induction S arbitrary: obj)
  case Nil
  then show ?case by (cases obj) auto
next
  case (Cons s S)
  then obtain v' rest where obj: "obj = (s, v') # rest" and rest: "map fst rest = S @ O'"
    by (cases obj) auto
  from Cons.prems have s: "is_array_index s" by simp
  have "map fst (insert_index_key (digits_value k) k v rest) = insort_key digits_value k S @ O'"
    using Cons.IH [OF rest] Cons.prems by simp
  with s rest show ?case
    by (auto simp: obj)
qed

lemma sort_key_snoc:
  assumes "\<forall>y \<in> set xs. f y \<noteq> f x"
  shows "sort_key f (xs @ [x]) = insort_key f x (sort_key f xs)"
  using assms
proof (induction xs)
  case Nil
  show ?case by simp
next
  case (Cons a xs)
  then have "sort_key f (xs @ [x]) = insort_key f x (sort_key f xs)" and ne: "f a \<noteq> f x"
    by simp_all
  then show ?case
    by (simp add: insort_key_left_comm)
qed

lemma enumeration_order_Nil [simp]: "enumeration_order [] = []"
  by (simp add: enumeration_order_def)

lemma set_enumeration_order [simp]: "set (enumeration_order ks) = set ks"
  by (auto simp: enumeration_order_def)

lemma enumeration_order_snoc:
  "enumeration_order (ks @ [k]) =
     (if k \<in> set ks then enumeration_order ks
      else if is_array_index k
      then insort_key digits_value k (sort_key digits_value (filter is_array_index (unique ks)))
           @ filter (\<lambda>k. \<not> is_array_index k) (unique ks)
      else enumeration_order ks @ [k])"
proof -
  have "\<forall>y\<in>set (filter is_array_index (unique ks)). digits_value y \<noteq> digits_value k"
    if "k \<notin> set ks" "is_array_index k"
    using that array_index_inj by auto
  then show ?thesis
    by (simp add: enumeration_order_def unique_snoc sort_key_snoc)
qed

lemma keys_obj_set:
  assumes "map fst obj = enumeration_order ks"
  shows "map fst (obj_set obj k v) = enumeration_order (ks @ [k])"
proof -
  have mem: "(obj_get obj k \<noteq> None) = (k \<in> set ks)"
    using assms by (metis obj_get_def map_of_eq_None_iff set_enumeration_order set_map)
  show ?thesis
  proof (cases "k \<in> set ks")
    case True
    with mem have "map fst (obj_set obj k v) = map fst obj"
      by (simp add: obj_set_def map_fst_update_existing del: map_map)
    with True show ?thesis
      by (simp add: assms enumeration_order_snoc)
  next
    case False
    show ?thesis
    proof (cases "is_array_index k")
      case True
      have "map fst (insert_index_key (digits_value k) k v obj) =
              insort_key digits_value k (sort_key digits_value (filter is_array_index (unique ks)))
              @ filter (\<lambda>k. \<not> is_array_index k) (unique ks)"
        by (rule keys_insert_index_key) (use assms in \<open>auto simp: enumeration_order_def\<close>)
      with mem False True show ?thesis
        by (simp add: obj_set_def enumeration_order_snoc)
    next
      case idx: False
      with mem False show ?thesis
        by (simp add: obj_set_def enumeration_order_snoc assms)
    qed
  qed
qed

lemma distinct_enumeration_order [simp]: "distinct (enumeration_order ks)"
  by (auto simp: enumeration_order_def)

lemma entries_from_keys:
  assumes "distinct (map fst obj)"
  shows "obj = map (\<lambda>k. (k, the (map_of obj k))) (map fst obj)"
proof -
  have "map (\<lambda>e. (fst e, the (map_of obj (fst e)))) obj = obj"
  proof (rule map_idI)
    fix e assume "e \<in> set obj"
    then have "(fst e, snd e) \<in> set obj" by simp
    with assms have "map_of obj (fst e) = Some (snd e)"
      by (simp only: map_of_eq_Some_iff)
    then show "(fst e, the (map_of obj (fst e))) = e" by simp
  qed
  then show ?thesis by (simp add: comp_def)
qed

lemma inherited_proto: "inherited_name ''__proto__''"
  by (simp add: inherited_name_def inherited_names_def)

lemma bump_counted:
  assumes "\<not> inherited_name k"
    and "obj_get obj k = (if k \<in> set ks then Some (Num (count_list ks k)) else None)"
  shows "bump obj k = obj_set obj k (Num (count_list ks k + 1))"
proof -
  from assms(1) inherited_proto have "k \<noteq> ''__proto__''" by auto
  with assms show ?thesis
    by (simp add: bump_def)
qed

lemma foldl_bump_plain:
  assumes "\<forall>k \<in> set ks. \<not> inherited_name k"
  shows "map fst (foldl bump [] ks) = enumeration_order ks \<and>
         (\<forall>k. obj_get (foldl bump [] ks) k =
                (if k \<in> set ks then Some (Num (count_list ks k)) else None))"
  using assms
proof (induction ks rule: rev_induct)
  case Nil
  show ?case by (simp add: obj_get_def)
next
  case (snoc k ks)
  let ?obj = "foldl bump [] ks"
  from snoc have keys: "map fst ?obj = enumeration_order ks"
    and vals: "\<And>k'. obj_get ?obj k' = (if k' \<in> set ks then Some (Num (count_list ks k')) else None)"
    and plain: "\<not> inherited_name k"
    by simp_all
  have b: "bump ?obj k = obj_set ?obj k (Num (count_list ks k + 1))"
    using plain vals [of k] by (rule bump_counted)
  have "map fst (foldl bump [] (ks @ [k])) = enumeration_order (ks @ [k])"
    by (simp add: b keys_obj_set [OF keys])
  moreover have "obj_get (foldl bump [] (ks @ [k])) k' =
      (if k' \<in> set (ks @ [k]) then Some (Num (count_list (ks @ [k]) k')) else None)" for k'
    by (simp add: b obj_get_obj_set vals)
  ultimately show ?case by blast
qed

lemma foldl_bump_entries:
  assumes "\<forall>k \<in> set ks. \<not> inherited_name k"
  shows "foldl bump [] ks = map (\<lambda>k. (k, Num (count_list ks k))) (enumeration_order ks)"
proof -
  let ?obj = "foldl bump [] ks"
  note p = foldl_bump_plain [OF assms]
  from p have keys: "map fst ?obj = enumeration_order ks"
    by blast
  then have "?obj = map (\<lambda>k. (k, the (map_of ?obj k))) (enumeration_order ks)"
    using entries_from_keys [of ?obj] by simp
  also have "\<dots> = map (\<lambda>k. (k, Num (count_list ks k))) (enumeration_order ks)"
    using p by (simp add: obj_get_def)
  finally show ?thesis .
qed

lemma keys_assign:
  assumes "\<exists>ks. map fst obj = enumeration_order ks"
  shows "\<exists>ks. map fst (assign obj k v) = enumeration_order ks"
proof (cases "k = ''__proto__''")
  case True
  with assms show ?thesis by (simp add: assign_def)
next
  case False
  from assms obtain ks where "map fst obj = enumeration_order ks" by blast
  then have "map fst (obj_set obj k v) = enumeration_order (ks @ [k])"
    by (rule keys_obj_set)
  with False show ?thesis
    unfolding assign_def by auto
qed

lemma enumeration_order_no_index:
  "\<forall>k \<in> set ks. \<not> is_array_index k \<Longrightarrow> enumeration_order ks = unique ks"
  by (simp add: enumeration_order_def)

text \<open>
  What the count object holds for names that \<open>Object.prototype\<close> supplies: a string
  for \<open>constructor\<close>, growing with every count, and nothing for \<open>__proto__\<close>.
\<close>

lemma bump_inherited:
  "bump [] ''constructor'' = [(''constructor'', Text ''function Object() { [native code] }1'')]"
  "bump (bump [] ''constructor'') ''constructor'' =
     [(''constructor'', Text ''function Object() { [native code] }11'')]"
  "bump [] ''__proto__'' = []"
  by (simp_all add: bump_def obj_get_def obj_set_def inherited_name_def inherited_names_def
        function_text_def is_array_index_def digits_value_def nat_to_string.simps digit_char_def)

section \<open>The statistics pass\<close>

lemma foldl_count_artist:
  "foldl count_artist counts as = foldl bump counts (credit_keys as)"
proof (induction as arbitrary: counts)
  case Nil
  show ?case by (simp add: credit_keys_def List.map_filter_simps)
next
  case (Cons x as)
  have ck: "credit_keys (x # as) =
        (case x of Val a \<Rightarrow> if truthy_str (ref_id a)
                       then [property_key (or_str (ref_name a) (ref_id a))] else []
            | _ \<Rightarrow> []) @ credit_keys as"
    by (simp add: credit_keys_def List.map_filter_simps split: nullable.splits)
  have "foldl count_artist counts (x # as) = foldl bump (count_artist counts x) (credit_keys as)"
    by (simp add: Cons.IH)
  also have "\<dots> = foldl bump counts (credit_keys (x # as))"
    unfolding ck by (cases x) (simp_all add: count_artist_def)
  finally show ?case .
qed

lemma feature_hits_Nil [simp]: "feature_hits ops audioFeatures [] = []"
  by (simp add: feature_hits_def List.map_filter_simps)

lemma feature_hits_Cons:
  "feature_hits ops audioFeatures (t # tracks) =
     feature_hits ops audioFeatures [t] @ feature_hits ops audioFeatures tracks"
  by (simp add: feature_hits_def List.map_filter_simps split: found.splits)

lemma feature_records_Nil [simp]: "feature_records ops audioFeatures [] = []"
  by (simp add: feature_records_def List.map_filter_simps)

lemma map_filter_append: "List.map_filter f (xs @ ys) = List.map_filter f xs @ List.map_filter f ys"
  by (simp add: List.map_filter_def)

lemma feature_records_Cons:
  "feature_records ops audioFeatures (t # tracks) =
     feature_records ops audioFeatures [t] @ feature_records ops audioFeatures tracks"
  unfolding feature_records_def feature_hits_Cons [of _ _ t tracks] by (rule map_filter_append)

lemma aggregate_track_Inr:
  assumes "aggregate_track ops audioFeatures st t = Inr st'"
  shows "(\<exists>names. artists_map_name (track_artists t) = Inr names)"
    and "totalDurationMs st' = js_add (totalDurationMs st) (or_zero (track_duration_ms t))"
    and "trackPopularity st' = trackPopularity st @ [tuple_of t]"
    and "artistCount st' = foldl bump (artistCount st) (credit_keys (or_empty (track_artists t)))"
    and "featuresCount st' = featuresCount st + length (feature_hits ops audioFeatures [t])"
    and "featuresAccumulator st' =
           foldl (\<lambda>acc af. accumulate ops af acc) (featuresAccumulator st)
             (feature_records ops audioFeatures [t])"
  using assms
  by (auto simp: aggregate_track_def Let_def tuple_of_def foldl_count_artist feature_records_def
        feature_hits_def List.map_filter_simps split: sum.splits found.splits)

lemma aggregate_track_Inl:
  "(\<exists>e. aggregate_track ops audioFeatures st t = Inl e) =
     (\<exists>e. artists_map_name (track_artists t) = Inl e)"
  by (auto simp: aggregate_track_def Let_def split: sum.splits found.splits)

lemma aggregate_Inr:
  assumes "aggregate ops audioFeatures st tracks = Inr st'"
  shows "(\<forall>t \<in> set tracks. \<exists>names. artists_map_name (track_artists t) = Inr names)
    \<and> totalDurationMs st' =
        foldl js_add (totalDurationMs st) (map (\<lambda>t. or_zero (track_duration_ms t)) tracks)
    \<and> trackPopularity st' = trackPopularity st @ map tuple_of tracks
    \<and> artistCount st' = foldl bump (artistCount st) (credited_keys tracks)
    \<and> featuresCount st' = featuresCount st + length (feature_hits ops audioFeatures tracks)
    \<and> featuresAccumulator st' =
           foldl (\<lambda>acc af. accumulate ops af acc) (featuresAccumulator st)
             (feature_records ops audioFeatures tracks)"
  using assms
proof (induction tracks arbitrary: st)
  case Nil
  then show ?case by (simp add: credited_keys_def)
next
  case (Cons t tracks)
  from Cons.prems obtain st1 where
    step: "aggregate_track ops audioFeatures st t = Inr st1" and
    rest: "aggregate ops audioFeatures st1 tracks = Inr st'"
    by (auto split: sum.splits)
  note s = aggregate_track_Inr [OF step]
  note r = Cons.IH [OF rest]
  have ck: "credited_keys (t # tracks) = credit_keys (or_empty (track_artists t)) @ credited_keys tracks"
    by (simp add: credited_keys_def)
  show ?case
    using s r unfolding ck feature_records_Cons [of _ _ t tracks] feature_hits_Cons [of _ _ t tracks]
    by simp
qed

lemma aggregate_total:
  assumes "\<forall>t \<in> set tracks. \<exists>names. artists_map_name (track_artists t) = Inr names"
  shows "\<exists>st'. aggregate ops audioFeatures st tracks = Inr st'"
  using assms
proof (induction tracks arbitrary: st)
  case Nil
  show ?case by simp
next
  case (Cons t tracks)
  then have "\<not> (\<exists>e. aggregate_track ops audioFeatures st t = Inl e)"
    by (auto simp: aggregate_track_Inl)
  then obtain st1 where "aggregate_track ops audioFeatures st t = Inr st1"
    by (cases "aggregate_track ops audioFeatures st t") auto
  with Cons show ?case by simp
qed

lemma aggregate_throws:
  assumes "t \<in> set tracks" "artists_map_name (track_artists t) = Inl e"
  shows "\<exists>what prop. aggregate ops audioFeatures st tracks = Inl (TypeError what prop)"
  using assms
proof (induction tracks arbitrary: st)
  case Nil
  then show ?case by simp
next
  case (Cons a tracks)
  show ?case
  proof (cases "aggregate_track ops audioFeatures st a")
    case (Inl e')
    have "\<exists>what prop. artist_names as = Inl e'' \<longrightarrow> e'' = TypeError what prop" for as e''
      by (induction as rule: artist_names.induct) (auto split: sum.splits)
    then have "\<exists>what prop. e' = TypeError what prop"
      using Inl
      by (cases "track_artists a")
         (auto simp: aggregate_track_def Let_def split: sum.splits found.splits)
    with Inl show ?thesis by auto
  next
    case (Inr st1)
    then have "\<exists>names. artists_map_name (track_artists a) = Inr names"
      by (rule aggregate_track_Inr)
    with Cons.prems have "t \<in> set tracks" by auto
    with Cons Inr show ?thesis by simp
  qed
qed


lemma present_values_Nil [simp]: "present_values k [] = []"
  by (simp add: present_values_def List.map_filter_simps)




text \<open>
  When no track id is a name that the table inherits, the tracks for which
  \<open>audioFeatures[t.id]\<close> finds something are the tracks that have a record.
\<close>

lemma audioFeatures_get_plain:
  assumes "prototype audioFeatures = None" "\<not> inherited_name k"
  shows "audioFeatures_get ops audioFeatures k =
           (case obj_get (own_features audioFeatures) k of Some af \<Rightarrow> Record af | None \<Rightarrow> Nothing)"
  using assms by (simp add: audioFeatures_get_def inherited_value_def split: option.splits)

lemma feature_hits_plain:
  assumes "prototype audioFeatures = None"
    and "\<forall>t \<in> set tracks. \<not> inherited_name (property_key (track_id t))"
  shows "feature_hits ops audioFeatures tracks =
           map (\<lambda>t. obj_get (own_features audioFeatures) (property_key (track_id t)))
             (tracks_with_record audioFeatures tracks)"
  using assms(2)
proof (induction tracks)
  case Nil
  show ?case by (simp add: tracks_with_record_def)
next
  case (Cons t tracks)
  then have "feature_hits ops audioFeatures tracks =
           map (\<lambda>t. obj_get (own_features audioFeatures) (property_key (track_id t)))
             (tracks_with_record audioFeatures tracks)"
    by simp
  moreover have "audioFeatures_get ops audioFeatures (property_key (track_id t)) =
      (case obj_get (own_features audioFeatures) (property_key (track_id t)) of
         Some af \<Rightarrow> Record af | None \<Rightarrow> Nothing)"
    using Cons.prems assms(1) by (intro audioFeatures_get_plain) simp_all
  ultimately show ?case
    unfolding feature_hits_Cons [of _ _ t tracks]
    by (auto simp: feature_hits_def tracks_with_record_def List.map_filter_simps
          split: option.splits)
qed

section \<open>Ranking\<close>





lemma foldl_bump_concat:
  "foldl (\<lambda>counts a. foldl bump counts (f a)) counts xs = foldl bump counts (concat (map f xs))"
  by (induction xs arbitrary: counts) simp_all

lemma genreCount_of_labels: "genreCount_of artistsMap = foldl bump [] (genre_labels artistsMap)"
proof -
  have "genre_labels artistsMap = concat (map (\<lambda>a. or_empty (artist_genres a)) (map snd artistsMap))"
    by (simp add: genre_labels_def comp_def case_prod_unfold)
  then show ?thesis
    by (simp add: genreCount_of_def foldl_bump_concat)
qed

lemma genreCount_of_entries:
  assumes "\<forall>g \<in> set (genre_labels artistsMap). \<not> inherited_name g"
  shows "genreCount_of artistsMap =
     map (\<lambda>g. (g, Num (count_list (genre_labels artistsMap) g)))
       (enumeration_order (genre_labels artistsMap))"
  using assms by (simp add: genreCount_of_labels foldl_bump_entries)

lemma artistCount_entries:
  assumes "aggregate ops audioFeatures (initial_stats ops) tracks = Inr st"
    and "\<forall>k \<in> set (credited_keys tracks). \<not> inherited_name k"
  shows "artistCount st =
           map (\<lambda>k. (k, Num (count_list (credited_keys tracks) k)))
             (enumeration_order (credited_keys tracks))"
  using aggregate_Inr [OF assms(1)] assms(2) by (simp add: initial_stats_def foldl_bump_entries)

lemma numeric_entries: "list_all numeric (map (\<lambda>k. (k, Num (f k))) ks)"
  by (simp add: list_all_iff numeric_def)

lemma rank_numeric: "list_all numeric es \<Longrightarrow> rank ops es = sort_descending count_key es"
  by (simp add: rank_def)




lemma count_list_concat:
  "count_list (concat xss) x = sum_list (map (\<lambda>xs. count_list xs x) xss)"
  by (induction xss) simp_all

section \<open>Paging\<close>

lemma push_tracks_present: "push_tracks tracks items = tracks @ present_tracks items"
  by (induction tracks items rule: push_tracks.induct)
     (simp_all add: present_tracks_def List.map_filter_simps)

lemma length_present_tracks: "length (present_tracks items) = length (filter truthy_obj items)"
proof (induction items)
  case Nil
  show ?case by (simp add: present_tracks_def List.map_filter_simps)
next
  case (Cons x items)
  then show ?case
    by (cases x) (simp_all add: present_tracks_def List.map_filter_simps)
qed

lemma fetchTracks_chain:
  assumes "page_chain up token reqs link pages"
  shows "\<exists>reqs'. fetchTracks up token link tracks reqs =
           Some (Inr (tracks @ concat (map (\<lambda>p. present_tracks (page_items p)) pages)), reqs')"
  using assms
proof (induction pages arbitrary: link tracks reqs)
  case Nil
  then show ?case
    by (subst fetchTracks.simps) simp
next
  case (Cons p pages)
  then have t: "truthy_str link" and g: "get_tracks up reqs token (property_key link) = Inr p"
    and c: "page_chain up token (reqs @ [GetTracks token (property_key link)]) (page_next p) pages"
    by simp_all
  from Cons.IH [OF c, of "push_tracks tracks (page_items p)"] obtain reqs' where
    "fetchTracks up token (page_next p) (push_tracks tracks (page_items p))
       (reqs @ [GetTracks token (property_key link)]) =
     Some (Inr (push_tracks tracks (page_items p)
                @ concat (map (\<lambda>p. present_tracks (page_items p)) pages)), reqs')"
    by blast
  with t g show ?case
    by (subst fetchTracks.simps) (simp add: push_tracks_present)
qed

lemma analyze_Result:
  assumes "analyze ops up s pid = Some (Result r, reqs)"
  shows "\<exists>token s' reqs0 pl tracks reqs1 artistIds audioFeatures reqs2 artistsMap st.
           ensureAccessToken up s = (Inr (token, s'), reqs0) \<and>
           get_playlist up reqs0 token pid = Inr pl \<and>
           fetchTracks up token (Val (tracks_url pid)) [] (reqs0 @ [GetPlaylist token pid])
             = Some (Inr tracks, reqs1) \<and>
           artistIds_of [] tracks = Inr artistIds \<and>
           fetchAudioFeatures up token (trackIds_of tracks) 0 empty_features reqs1 = (Inr audioFeatures, reqs2) \<and>
           fetchArtists up token (uniqueArtistIds_of artistIds) 0 [] reqs2 = (Inr artistsMap, reqs) \<and>
           aggregate ops audioFeatures (initial_stats ops) tracks = Inr st \<and>
           r = build_result ops pl tracks artistsMap st"
proof -
  have ne: "on_error e \<noteq> Result r" for e :: exn
    by (simp add: on_error_def)
  from assms obtain outcome where
    tr: "analyze_try ops up s pid = Some (outcome, reqs)" and
    out: "(case outcome of Inl e \<Rightarrow> on_error e | Inr r \<Rightarrow> Result r) = Result r"
    by (auto simp: analyze_def)
  from out ne have outcome: "outcome = Inr r"
    by (cases outcome) auto
  from tr show ?thesis
    unfolding outcome analyze_try_def
    by (auto split: prod.splits sum.splits option.splits)
qed

lemma analyze_success:
  assumes "ensureAccessToken up s = (Inr (token, s'), reqs0)"
    and "get_playlist up reqs0 token pid = Inr pl"
    and "fetchTracks up token (Val (tracks_url pid)) [] (reqs0 @ [GetPlaylist token pid])
           = Some (Inr tracks, reqs1)"
    and "artistIds_of [] tracks = Inr artistIds"
    and "fetchAudioFeatures up token (trackIds_of tracks) 0 empty_features reqs1 = (Inr audioFeatures, reqs2)"
    and "fetchArtists up token (uniqueArtistIds_of artistIds) 0 [] reqs2 = (Inr artistsMap, reqs3)"
    and "aggregate ops audioFeatures (initial_stats ops) tracks = Inr st"
  shows "analyze ops up s pid = Some (Result (build_result ops pl tracks artistsMap st), reqs3)"
  by (simp add: analyze_def analyze_try_def assms)

lemma fetchTracks_failing_chain:
  assumes "failing_page_chain up token reqs link pages e"
  shows "\<exists>reqs'. fetchTracks up token link tracks reqs = Some (Inl (AxiosError e), reqs')"
  using assms
proof (induction pages arbitrary: link tracks reqs)
  case Nil
  then show ?case
    by (subst fetchTracks.simps) simp
next
  case (Cons p pages)
  then have t: "truthy_str link" and g: "get_tracks up reqs token (property_key link) = Inr p"
    and c: "failing_page_chain up token (reqs @ [GetTracks token (property_key link)])
              (page_next p) pages e"
    by simp_all
  from Cons.IH [OF c, of "push_tracks tracks (page_items p)"] obtain reqs' where
    "fetchTracks up token (page_next p) (push_tracks tracks (page_items p))
       (reqs @ [GetTracks token (property_key link)]) = Some (Inl (AxiosError e), reqs')"
    by blast
  with t g show ?case
    by (subst fetchTracks.simps) simp
qed

lemma analyze_try_answers:
  assumes "\<And>token s' reqs0 pl.
             ensureAccessToken up s = (Inr (token, s'), reqs0) \<Longrightarrow>
             get_playlist up reqs0 token pid = Inr pl \<Longrightarrow>
             \<exists>y. fetchTracks up token (Val (tracks_url pid)) [] (reqs0 @ [GetPlaylist token pid]) = Some y"
  shows "\<exists>outcome reqs. analyze_try ops up s pid = Some (outcome, reqs)"
proof -
  obtain o0 reqs0 where tok: "ensureAccessToken up s = (o0, reqs0)"
    by (cases "ensureAccessToken up s")
  show ?thesis
  proof (cases o0)
    case (Inl e)
    with tok show ?thesis by (simp add: analyze_try_def)
  next
    case (Inr ts)
    obtain token s' where ts: "ts = (token, s')" by (cases ts)
    show ?thesis
    proof (cases "get_playlist up reqs0 token pid")
      case (Inl e)
      with tok Inr ts show ?thesis by (simp add: analyze_try_def)
    next
      case pl: (Inr pl)
      from assms [OF tok [unfolded Inr ts] pl] obtain y where
        "fetchTracks up token (Val (tracks_url pid)) [] (reqs0 @ [GetPlaylist token pid]) = Some y"
        by blast
      with tok Inr ts pl show ?thesis
        by (auto simp: analyze_try_def split: prod.splits sum.splits)
    qed
  qed
qed

section \<open>Batching\<close>

lemma chunks_unfold:
  "xs \<noteq> [] \<Longrightarrow> 0 < n \<Longrightarrow> chunks n xs = take n xs # chunks n (drop n xs)"
  by (cases xs) simp_all

lemma chunks_drop:
  assumes "i < length xs" "0 < n"
  shows "chunks n (drop i xs) = slice xs i (i + n) # chunks n (drop (i + n) xs)"
proof -
  from assms have "drop i xs \<noteq> []" by simp
  then show ?thesis
    using assms by (simp add: chunks_unfold slice_def add.commute)
qed

lemma concat_chunks: "0 < n \<Longrightarrow> concat (chunks n xs) = xs"
proof (induction n xs rule: chunks.induct)
  case (1 n)
  show ?case by simp
next
  case (2 n x xs)
  then have "concat (chunks n (drop n (x # xs))) = drop n (x # xs)"
    by simp
  with 2 have "concat (chunks n (x # xs)) = take n (x # xs) @ drop n (x # xs)"
    by simp
  then show ?case
    by (simp only: append_take_drop_id)
qed

lemma chunks_bounds: "c \<in> set (chunks n xs) \<Longrightarrow> c \<noteq> [] \<and> length c \<le> n"
proof (induction n xs rule: chunks.induct)
  case (1 n)
  then show ?case by simp
next
  case (2 n x xs)
  show ?case
  proof (cases "n = 0")
    case True
    with 2 show ?thesis by simp
  next
    case False
    with 2 show ?thesis
      by (cases n) auto
  qed
qed

lemma chunks_250:
  assumes "length xs = 250"
  shows "map length (chunks 100 xs) = [100, 100, 50]"
proof -
  have 1: "chunks 100 xs = take 100 xs # chunks 100 (drop 100 xs)"
    using assms by (intro chunks_unfold) auto
  have 2: "chunks 100 (drop 100 xs) = take 100 (drop 100 xs) # chunks 100 (drop 200 xs)"
    using assms chunks_unfold [of "drop 100 xs" 100] by simp
  have 3: "chunks 100 (drop 200 xs) = take 100 (drop 200 xs) # chunks 100 (drop 300 xs)"
    using assms chunks_unfold [of "drop 200 xs" 100] by simp
  have 4: "chunks 100 (drop 300 xs) = []"
    using assms by simp
  show ?thesis
    unfolding 1 2 3 4 using assms by simp
qed

lemma chunks_250_by_50:
  assumes "length xs = 250"
  shows "map length (chunks 50 xs) = [50, 50, 50, 50, 50]"
proof -
  have step: "chunks 50 (drop i xs) = take 50 (drop i xs) # chunks 50 (drop (i + 50) xs)"
    if "i < 250" for i
    using assms that chunks_unfold [of "drop i xs" 50] by (simp add: add.commute)
  have 0: "chunks 50 xs = take 50 xs # chunks 50 (drop 50 xs)"
    using step [of 0] by simp
  have 5: "chunks 50 (drop 250 xs) = []"
    using assms by simp
  show ?thesis
    unfolding 0 using step [of 50] step [of 100] step [of 150] step [of 200] 5 assms
    by simp
qed

lemma join_nonempty:
  assumes "c \<noteq> []" "[] \<notin> set c"
  shows "batch_of c \<noteq> []"
proof -
  from assms obtain x rest where c: "c = x # rest" and "x \<noteq> []"
    by (cases c) auto
  then show ?thesis
    by (cases rest) (simp_all add: batch_of_def)
qed

lemma slice_nonempty:
  assumes "i < length ids" "[] \<notin> set ids" "0 < n"
  shows "batch_of (slice ids i (i + n)) \<noteq> []"
proof (rule join_nonempty)
  show "slice ids i (i + n) \<noteq> []"
    using assms by (simp add: slice_def)
  show "[] \<notin> set (slice ids i (i + n))"
    using assms by (auto simp: slice_def dest!: in_set_takeD in_set_dropD)
qed

lemma filter_Boolean_nonempty: "[] \<notin> set (filter_Boolean xs)"
  by (induction xs rule: filter_Boolean.induct) auto

lemma fetchAudioFeatures_requests:
  assumes "[] \<notin> set ids"
  shows "\<exists>issued. prefix issued (chunks 100 (drop i ids)) \<and>
           snd (fetchAudioFeatures up token ids i afs reqs) =
             reqs @ map (\<lambda>c. GetAudioFeatures token (batch_of c)) issued \<and>
           (\<not> isl (fst (fetchAudioFeatures up token ids i afs reqs)) \<longrightarrow>
              issued = chunks 100 (drop i ids))"
  using assms
proof (induction up token ids i afs reqs rule: fetchAudioFeatures.induct)
  case (1 up token ids i afs reqs)
  let ?chunk = "slice ids i (i + 100)"
  let ?batch = "batch_of ?chunk"
  show ?case
  proof (cases "i < length ids")
    case False
    then show ?thesis
      by (subst (1 2) fetchAudioFeatures.simps) simp
  next
    case True
    then have ne: "?batch \<noteq> []"
      using "1.prems" by (simp add: slice_nonempty)
    have ch: "chunks 100 (drop i ids) = ?chunk # chunks 100 (drop (i + 100) ids)"
      using True by (simp add: chunks_drop)
    show ?thesis
    proof (cases "get_audio_features up reqs token ?batch")
      case (Inl e)
      have "fetchAudioFeatures up token ids i afs reqs =
              (Inl (AxiosError e), reqs @ [GetAudioFeatures token ?batch])"
        using True ne Inl by (subst fetchAudioFeatures.simps) (simp add: batch_of_def)
      then show ?thesis
        unfolding ch by (intro exI [of _ "[?chunk]"]) simp
    next
      case (Inr data)
      let ?afs = "foldl merge_audio_feature afs (or_empty data)"
      let ?reqs = "reqs @ [GetAudioFeatures token ?batch]"
      have step: "fetchAudioFeatures up token ids i afs reqs =
              fetchAudioFeatures up token ids (i + 100) ?afs ?reqs"
        using True ne Inr by (subst fetchAudioFeatures.simps) (simp add: batch_of_def)
      from "1.IH"(2) [OF True _ _ Inr "1.prems"] ne obtain issued where
        "prefix issued (chunks 100 (drop (i + 100) ids))"
        "snd (fetchAudioFeatures up token ids (i + 100) ?afs ?reqs) =
           ?reqs @ map (\<lambda>c. GetAudioFeatures token (batch_of c)) issued"
        "\<not> isl (fst (fetchAudioFeatures up token ids (i + 100) ?afs ?reqs)) \<longrightarrow>
           issued = chunks 100 (drop (i + 100) ids)"
        by (auto simp: batch_of_def)
      then show ?thesis
        unfolding ch step by (intro exI [of _ "?chunk # issued"]) simp
    qed
  qed
qed

lemma fetchArtists_requests:
  assumes "[] \<notin> set ids"
  shows "\<exists>issued. prefix issued (chunks 50 (drop i ids)) \<and>
           snd (fetchArtists up token ids i amap reqs) =
             reqs @ map (\<lambda>c. GetArtists token (batch_of c)) issued \<and>
           (\<not> isl (fst (fetchArtists up token ids i amap reqs)) \<longrightarrow>
              issued = chunks 50 (drop i ids))"
  using assms
proof (induction up token ids i amap reqs rule: fetchArtists.induct)
  case (1 up token ids i amap reqs)
  let ?chunk = "slice ids i (i + 50)"
  let ?batch = "batch_of ?chunk"
  let ?reqs = "reqs @ [GetArtists token ?batch]"
  show ?case
  proof (cases "i < length ids")
    case False
    then show ?thesis
      by (subst (1 2) fetchArtists.simps) simp
  next
    case True
    then have ne: "?batch \<noteq> []"
      using "1.prems" by (simp add: slice_nonempty)
    have ch: "chunks 50 (drop i ids) = ?chunk # chunks 50 (drop (i + 50) ids)"
      using True by (simp add: chunks_drop)
    show ?thesis
    proof (cases "get_artists up reqs token ?batch")
      case (Inl e)
      have "fetchArtists up token ids i amap reqs = (Inl (AxiosError e), ?reqs)"
        using True ne Inl by (subst fetchArtists.simps) (simp add: batch_of_def)
      then show ?thesis
        unfolding ch by (intro exI [of _ "[?chunk]"]) simp
    next
      case (Inr data)
      show ?thesis
      proof (cases "merge_artists amap (or_empty data)")
        case merge: (Inl e)
        have "fetchArtists up token ids i amap reqs = (Inl e, ?reqs)"
          using True ne Inr merge by (subst fetchArtists.simps) (simp add: batch_of_def)
        then show ?thesis
          unfolding ch by (intro exI [of _ "[?chunk]"]) simp
      next
        case merge: (Inr amap')
        have step: "fetchArtists up token ids i amap reqs =
                fetchArtists up token ids (i + 50) amap' ?reqs"
          using True ne Inr merge by (subst fetchArtists.simps) (simp add: batch_of_def)
        from "1.IH"(2) [OF True _ _ Inr merge "1.prems"] ne obtain issued where
          "prefix issued (chunks 50 (drop (i + 50) ids))"
          "snd (fetchArtists up token ids (i + 50) amap' ?reqs) =
             ?reqs @ map (\<lambda>c. GetArtists token (batch_of c)) issued"
          "\<not> isl (fst (fetchArtists up token ids (i + 50) amap' ?reqs)) \<longrightarrow>
             issued = chunks 50 (drop (i + 50) ids)"
          by (auto simp: batch_of_def)
        then show ?thesis
          unfolding ch step by (intro exI [of _ "?chunk # issued"]) simp
      qed
    qed
  qed
qed

lemma fetchAudioFeatures_succeeds:
  "(\<forall>reqs batch. \<not> isl (get_audio_features up reqs token batch)) \<Longrightarrow>
     \<not> isl (fst (fetchAudioFeatures up token ids i afs reqs))"
proof (induction up token ids i afs reqs rule: fetchAudioFeatures.induct)
  case (1 up token ids i afs reqs)
  let ?batch = "join '','' (map Val (slice ids i (i + 100)))"
  from "1.prems" obtain data where data: "get_audio_features up reqs token ?batch = Inr data"
    by (cases "get_audio_features up reqs token ?batch") (metis sum.disc(1), simp)
  show ?case
    using 1 data by (subst fetchAudioFeatures.simps) (simp add: Let_def)
qed

lemma merge_artists_succeeds:
  "\<forall>x \<in> set xs. truthy_obj x \<Longrightarrow> \<exists>m'. merge_artists m xs = Inr m'"
  by (induction m xs rule: merge_artists.induct) simp_all

lemma fetchArtists_succeeds:
  "(\<forall>reqs batch. \<exists>data. get_artists up reqs token batch = Inr data \<and>
       (\<forall>x \<in> set (or_empty data). truthy_obj x)) \<Longrightarrow>
     \<not> isl (fst (fetchArtists up token ids i amap reqs))"
proof (induction up token ids i amap reqs rule: fetchArtists.induct)
  case (1 up token ids i amap reqs)
  let ?batch = "join '','' (map Val (slice ids i (i + 50)))"
  from "1.prems" obtain data where data: "get_artists up reqs token ?batch = Inr data"
    and ok: "\<forall>x \<in> set (or_empty data). truthy_obj x"
    by blast
  from merge_artists_succeeds [OF ok] obtain amap' where
    merge: "merge_artists amap (or_empty data) = Inr amap'"
    by blast
  show ?case
    using 1 data merge by (subst fetchArtists.simps) (simp add: Let_def)
qed

section \<open>Failures\<close>

lemma answered_ok_Nil [simp]: "answered_ok up []"
  by (simp add: answered_ok_def)

lemma answered_ok_snoc:
  "answered_ok up (reqs @ [r]) = (answered_ok up reqs \<and> answer_failure up reqs r = None)"
proof -
  have "(\<forall>i < Suc (length reqs). answer_failure up (take i (reqs @ [r])) ((reqs @ [r]) ! i) = None)
        = ((\<forall>i < length reqs. answer_failure up (take i (reqs @ [r])) ((reqs @ [r]) ! i) = None)
           \<and> answer_failure up (take (length reqs) (reqs @ [r])) ((reqs @ [r]) ! length reqs) = None)"
    by (auto simp: less_Suc_eq)
  then show ?thesis
    by (simp add: answered_ok_def nth_append)
qed

lemma settled_Inr [simp]: "settled up (Inr x) reqs = answered_ok up reqs"
  by (simp add: settled_def)

lemma settled_failed:
  "answered_ok up reqs \<Longrightarrow> answer_failure up reqs r = Some e \<Longrightarrow>
     settled up (Inl (AxiosError e)) (reqs @ [r])"
  by (simp add: settled_def)

lemma settled_TypeError [simp]: "settled up (Inl (TypeError w p)) reqs = answered_ok up reqs"
  by (simp add: settled_def)

lemma settled_Error [simp]: "settled up (Inl (Error m)) reqs = answered_ok up reqs"
  by (simp add: settled_def)

lemma failure_of_simps [simp]:
  "failure_of (Inl e) = Some e" "failure_of (Inr x) = None"
  by (simp_all add: failure_of_def)

lemma settled_ensureAccessToken:
  "settled up (fst (ensureAccessToken up s)) (snd (ensureAccessToken up s))"
  by (cases s)
     (auto simp: ensureAccessToken_def Let_def settled_def answered_ok_def split: sum.splits)

lemma settled_fetchTracks:
  assumes "fetchTracks up token link tracks reqs = Some y" "answered_ok up reqs"
  shows "settled up (fst y) (snd y)"
proof -
  have "answered_ok up reqs \<longrightarrow> settled up (fst y) (snd y)"
  proof (rule fetchTracks.raw_induct
      [where P = "\<lambda>up token link tracks reqs y. answered_ok up reqs \<longrightarrow> settled up (fst y) (snd y)",
        OF _ assms(1)], goal_cases)
    case (1 f up token link tracks reqs y)
    show ?case
    proof (cases "truthy_str link")
      case False
      with 1(2) show ?thesis by auto
    next
      case True
      show ?thesis
      proof (cases "get_tracks up reqs token (property_key link)")
        case (Inl e)
        with True 1(2) have "y = (Inl (AxiosError e), reqs @ [GetTracks token (property_key link)])"
          by simp
        with Inl show ?thesis
          by (auto intro: settled_failed)
      next
        case (Inr page)
        with True 1(2) have
          "f up token (page_next page) (push_tracks tracks (page_items page))
             (reqs @ [GetTracks token (property_key link)]) = Some y"
          by simp
        from 1(1) [OF this] Inr show ?thesis
          by (simp add: answered_ok_snoc)
      qed
    qed
  qed
  with assms(2) show ?thesis by simp
qed

lemma settled_fetchAudioFeatures:
  "answered_ok up reqs \<Longrightarrow>
     settled up (fst (fetchAudioFeatures up token ids i afs reqs))
       (snd (fetchAudioFeatures up token ids i afs reqs))"
proof (induction up token ids i afs reqs rule: fetchAudioFeatures.induct)
  case (1 up token ids i afs reqs)
  let ?batch = "join '','' (map Val (slice ids i (i + 100)))"
  show ?case
  proof (cases "i < length ids \<and> ?batch \<noteq> []")
    case False
    with 1 show ?thesis
      by (subst (1 2) fetchAudioFeatures.simps) (auto simp: Let_def)
  next
    case True
    show ?thesis
    proof (cases "get_audio_features up reqs token ?batch")
      case (Inl e)
      with True "1.prems" show ?thesis
        by (subst (1 2) fetchAudioFeatures.simps) (auto simp: Let_def intro: settled_failed)
    next
      case (Inr data)
      with True 1 show ?thesis
        by (subst (1 2) fetchAudioFeatures.simps) (simp add: Let_def answered_ok_snoc)
    qed
  qed
qed

lemma settled_fetchArtists:
  "answered_ok up reqs \<Longrightarrow>
     settled up (fst (fetchArtists up token ids i amap reqs))
       (snd (fetchArtists up token ids i amap reqs))"
proof (induction up token ids i amap reqs rule: fetchArtists.induct)
  case (1 up token ids i amap reqs)
  let ?batch = "join '','' (map Val (slice ids i (i + 50)))"
  show ?case
  proof (cases "i < length ids \<and> ?batch \<noteq> []")
    case False
    with 1 show ?thesis
      by (subst (1 2) fetchArtists.simps) (auto simp: Let_def)
  next
    case True
    show ?thesis
    proof (cases "get_artists up reqs token ?batch")
      case (Inl e)
      with True "1.prems" show ?thesis
        by (subst (1 2) fetchArtists.simps) (auto simp: Let_def intro: settled_failed)
    next
      case (Inr data)
      have te: "\<exists>w p. e = TypeError w p" if "merge_artists m xs = Inl e" for m xs e
        using that by (induction m xs rule: merge_artists.induct) auto
      show ?thesis
      proof (cases "merge_artists amap (or_empty data)")
        case merge: (Inl e)
        with te obtain w p where "e = TypeError w p" by blast
        with merge Inr True "1.prems" show ?thesis
          by (subst (1 2) fetchArtists.simps) (simp add: Let_def answered_ok_snoc)
      next
        case merge: (Inr amap')
        with Inr True 1 show ?thesis
          by (subst (1 2) fetchArtists.simps) (simp add: Let_def answered_ok_snoc)
      qed
    qed
  qed
qed

lemma settled_Inl_cast:
  "settled up (Inl e :: exn + 'x) reqs \<Longrightarrow> settled up (Inl e :: exn + 'y) reqs"
  by (simp add: settled_def)

lemma push_artist_ids_throws:
  "push_artist_ids ids as = Inl e \<Longrightarrow> \<exists>w p. e = TypeError w p"
  by (induction ids as rule: push_artist_ids.induct) auto

lemma artistIds_of_throws:
  "artistIds_of ids tracks = Inl e \<Longrightarrow> \<exists>w p. e = TypeError w p"
  by (induction ids tracks rule: artistIds_of.induct)
     (auto split: sum.splits dest: push_artist_ids_throws)

lemma artist_names_throws: "artist_names as = Inl e \<Longrightarrow> \<exists>w p. e = TypeError w p"
  by (induction as rule: artist_names.induct) (auto split: sum.splits)

lemma aggregate_track_throws:
  "aggregate_track ops afs st t = Inl e \<Longrightarrow> \<exists>w p. e = TypeError w p"
  by (cases "track_artists t")
     (auto simp: aggregate_track_def Let_def split: sum.splits found.splits
           dest: artist_names_throws)

lemma aggregate_Inl_TypeError:
  "aggregate ops afs st tracks = Inl e \<Longrightarrow> \<exists>w p. e = TypeError w p"
  by (induction tracks arbitrary: st) (auto split: sum.splits dest: aggregate_track_throws)

lemma settled_analyze_try:
  assumes "analyze_try ops up s pid = Some (outcome, reqs)"
  shows "settled up outcome reqs"
proof -
  obtain o0 reqs0 where tok: "ensureAccessToken up s = (o0, reqs0)"
    by (cases "ensureAccessToken up s")
  have s0: "settled up o0 reqs0"
    using settled_ensureAccessToken [of up s] tok by simp
  show ?thesis
  proof (cases o0)
    case (Inl e)
    with assms tok have "outcome = Inl e" "reqs = reqs0"
      by (simp_all add: analyze_try_def)
    with s0 Inl show ?thesis
      by (auto elim: settled_Inl_cast)
  next
    case (Inr ts)
    obtain token s' where ts: "ts = (token, s')" by (cases ts)
    from s0 Inr have ok0: "answered_ok up reqs0" by simp
    let ?reqsP = "reqs0 @ [GetPlaylist token pid]"
    show ?thesis
    proof (cases "get_playlist up reqs0 token pid")
      case (Inl e)
      with assms tok Inr ts have "outcome = Inl (AxiosError e)" "reqs = ?reqsP"
        by (simp_all add: analyze_try_def)
      with Inl ok0 show ?thesis
        using settled_failed [of up reqs0 "GetPlaylist token pid" e]
        by simp
    next
      case pl: (Inr pl)
      then have okP: "answered_ok up ?reqsP"
        using ok0 by (simp add: answered_ok_snoc)
      show ?thesis
      proof (cases "fetchTracks up token (Val (tracks_url pid)) [] ?reqsP")
        case None
        with assms tok Inr ts pl show ?thesis
          by (simp add: analyze_try_def)
      next
        case (Some y)
        obtain o1 reqs1 where y: "y = (o1, reqs1)" by (cases y)
        have s1: "settled up o1 reqs1"
          using settled_fetchTracks [OF Some okP] y by simp
        show ?thesis
        proof (cases o1)
          case (Inl e)
          with assms tok Inr ts pl Some y have "outcome = Inl e" "reqs = reqs1"
            by (simp_all add: analyze_try_def)
          with s1 Inl show ?thesis
            by (auto elim: settled_Inl_cast)
        next
          case tracks: (Inr tracks)
          with s1 have ok1: "answered_ok up reqs1" by simp
          show ?thesis
          proof (cases "artistIds_of [] tracks")
            case (Inl e)
            with assms tok Inr ts pl Some y tracks have "outcome = Inl e" "reqs = reqs1"
              by (simp_all add: analyze_try_def)
            with ok1 artistIds_of_throws [OF Inl] show ?thesis
              by auto
          next
            case ids: (Inr artistIds)
            obtain o2 reqs2 where af:
              "fetchAudioFeatures up token (trackIds_of tracks) 0 empty_features reqs1 = (o2, reqs2)"
              by (cases "fetchAudioFeatures up token (trackIds_of tracks) 0 empty_features reqs1")
            have s2: "settled up o2 reqs2"
              using settled_fetchAudioFeatures [OF ok1, of token "trackIds_of tracks" 0 empty_features] af
              by simp
            show ?thesis
            proof (cases o2)
              case (Inl e)
              with assms tok Inr ts pl Some y tracks ids af have "outcome = Inl e" "reqs = reqs2"
                by (simp_all add: analyze_try_def)
              with s2 Inl show ?thesis
            by (auto elim: settled_Inl_cast)
            next
              case afs: (Inr audioFeatures)
              with s2 have ok2: "answered_ok up reqs2" by simp
              obtain o3 reqs3 where ar:
                "fetchArtists up token (uniqueArtistIds_of artistIds) 0 [] reqs2 = (o3, reqs3)"
                by (cases "fetchArtists up token (uniqueArtistIds_of artistIds) 0 [] reqs2")
              have s3: "settled up o3 reqs3"
                using settled_fetchArtists [OF ok2, of token "uniqueArtistIds_of artistIds" 0 "[]"] ar
                by simp
              show ?thesis
              proof (cases o3)
                case (Inl e)
                with assms tok Inr ts pl Some y tracks ids af afs ar
                have "outcome = Inl e" "reqs = reqs3"
                  by (simp_all add: analyze_try_def)
                with s3 Inl show ?thesis
            by (auto elim: settled_Inl_cast)
              next
                case amap: (Inr artistsMap)
                with s3 have ok3: "answered_ok up reqs3" by simp
                show ?thesis
                proof (cases "aggregate ops audioFeatures (initial_stats ops) tracks")
                  case (Inl e)
                  with assms tok Inr ts pl Some y tracks ids af afs ar amap
                  have "outcome = Inl e" "reqs = reqs3"
                    by (simp_all add: analyze_try_def)
                  with ok3 aggregate_Inl_TypeError [OF Inl] show ?thesis
                    by auto
                next
                  case st: (Inr st)
                  with assms tok Inr ts pl Some y tracks ids af afs ar amap
                  have "outcome = Inr (build_result ops pl tracks artistsMap st)" "reqs = reqs3"
                    by (simp_all add: analyze_try_def)
                  with ok3 show ?thesis by simp
                qed
              qed
            qed
          qed
        qed
      qed
    qed
  qed
qed

lemma on_error_BadStatus:
  "on_error (AxiosError (BadStatus n body)) =
     Failure 500 ''analysis_failed''
       (or_str body (Val (''Request failed with status code '' @ nat_to_string n)))"
  by (simp add: on_error_def)

lemma merge_artists_invariant:
  assumes "merge_artists amap xs = Inr amap'" "P amap" "\<And>m k a. P m \<Longrightarrow> P (assign m k a)"
  shows "P amap'"
  using assms(1,2)
proof (induction amap xs rule: merge_artists.induct)
  case (2 amap a as)
  from "2.prems"(2) have "P (assign amap (property_key (artist_id a)) a)"
    by (rule assms(3))
  with 2 show ?case by simp
qed simp_all

lemma fetchArtists_invariant:
  assumes "fetchArtists up token ids i amap reqs = (Inr amap', reqs')" "P amap"
    and step: "\<And>m k a. P m \<Longrightarrow> P (assign m k a)"
  shows "P amap'"
  using assms(1,2)
proof (induction up token ids i amap reqs rule: fetchArtists.induct)
  case (1 up token ids i amap reqs)
  let ?batch = "join '','' (map Val (slice ids i (i + 50)))"
  show ?case
  proof (cases "i < length ids")
    case False
    with "1.prems" show ?thesis
      by (subst (asm) fetchArtists.simps) simp
  next
    case True
    show ?thesis
    proof (cases "?batch = []")
      case empty: True
      with True "1.prems"(1) have
        "fetchArtists up token ids (i + 50) amap reqs = (Inr amap', reqs')"
        by (subst (asm) fetchArtists.simps) (simp add: Let_def)
      from "1.IH"(1) [OF True refl empty this "1.prems"(2)] show ?thesis .
    next
      case False
      show ?thesis
      proof (cases "get_artists up reqs token ?batch")
        case (Inl e)
        with True False "1.prems"(1) show ?thesis
          by (subst (asm) fetchArtists.simps) (simp add: Let_def)
      next
        case (Inr data)
        show ?thesis
        proof (cases "merge_artists amap (or_empty data)")
          case merge: (Inl e)
          with Inr True False "1.prems"(1) show ?thesis
            by (subst (asm) fetchArtists.simps) (simp add: Let_def)
        next
          case merge: (Inr amap1)
          with Inr True False "1.prems"(1) have
            "fetchArtists up token ids (i + 50) amap1 (reqs @ [GetArtists token ?batch])
               = (Inr amap', reqs')"
            by (subst (asm) fetchArtists.simps) (simp add: Let_def)
          from "1.IH"(2) [OF True refl False Inr merge this]
            merge_artists_invariant [of amap "or_empty data" amap1 P, OF merge "1.prems"(2) step]
          show ?thesis .
        qed
      qed
    qed
  qed
qed

lemma keys_of_obj_set: "fst ` set (obj_set obj k v) = insert k (fst ` set obj)"
proof -
  have "dom (map_of (obj_set obj k v)) = insert k (dom (map_of obj))"
    by (simp add: map_of_obj_set)
  then show ?thesis
    by (simp add: dom_map_of_conv_image_fst)
qed

lemma assign_no_proto:
  "''__proto__'' \<notin> fst ` set obj \<Longrightarrow> ''__proto__'' \<notin> fst ` set (assign obj k v)"
  by (simp add: assign_def keys_of_obj_set)

lemma fetchArtists_keys:
  assumes "fetchArtists up token ids i [] reqs = (Inr amap', reqs')"
  shows "distinct (map fst amap')" and "''__proto__'' \<notin> fst ` set amap'"
proof -
  have "\<exists>ks. map fst ([] :: artist js_object) = enumeration_order ks"
    by (intro exI [of _ "[]"]) simp
  from fetchArtists_invariant [of _ _ _ _ _ _ _ _ "\<lambda>m. \<exists>ks. map fst m = enumeration_order ks",
      OF assms this keys_assign]
  obtain ks where "map fst amap' = enumeration_order ks" by blast
  then show "distinct (map fst amap')" by simp
  have "''__proto__'' \<notin> fst ` set ([] :: artist js_object)" by simp
  from fetchArtists_invariant [of _ _ _ _ _ _ _ _ "\<lambda>m. ''__proto__'' \<notin> fst ` set m",
      OF assms this assign_no_proto]
  show "''__proto__'' \<notin> fst ` set amap'" .
qed

lemma message_not_authenticated:
  "message (AxiosError e) \<noteq> ''not_authenticated''" "message (TypeError w p) \<noteq> ''not_authenticated''"
  by (cases e) simp_all

lemma on_error_analysis_failed:
  assumes "\<And>m. e \<noteq> Error m"
  shows "\<exists>detail. (on_error e :: 'n response) = Failure 500 ''analysis_failed'' detail"
  using assms by (cases e) (simp_all add: on_error_def message_not_authenticated)

lemma fetchAudioFeatures_throws:
  "fst (fetchAudioFeatures up token ids i afs reqs) = Inl e \<Longrightarrow> \<exists>x. e = AxiosError x"
proof (induction up token ids i afs reqs rule: fetchAudioFeatures.induct)
  case (1 up token ids i afs reqs)
  from "1.prems" show ?case
    apply (subst (asm) fetchAudioFeatures.simps)
    apply (auto simp: Let_def split: if_splits sum.splits dest: "1.IH")
    done
qed

lemma merge_artists_throws: "merge_artists m xs = Inl e \<Longrightarrow> \<exists>w p. e = TypeError w p"
  by (induction m xs rule: merge_artists.induct) auto

lemma fetchArtists_throws:
  "fst (fetchArtists up token ids i amap reqs) = Inl e \<Longrightarrow> \<forall>m. e \<noteq> Error m"
proof (induction up token ids i amap reqs rule: fetchArtists.induct)
  case (1 up token ids i amap reqs)
  from "1.prems" show ?case
    apply (subst (asm) fetchArtists.simps)
    apply (auto simp: Let_def split: if_splits sum.splits dest: "1.IH" merge_artists_throws)
    done
qed

section \<open>The examples, evaluated\<close>

lemmas dictionary_eval =
  obj_set_def obj_get_def bump_def assign_def inherited_name_def inherited_names_def
  is_array_index_def digits_value_def nat_to_string.simps digit_char_def

lemma token_single_page:
  "ensureAccessToken (single_page items fs rs) example_session =
     (Inr (Val ''token'',
           \<lparr>access_token = Val ''token'', refresh_token = Val ''refresh'', expires_in = Val 100000\<rparr>),
      [])"
  by (simp add: ensureAccessToken_def js_add_exact example_session_def single_page_def)

lemma playlist_single_page:
  "get_playlist (single_page items fs rs) reqs token pid = Inr example_playlist"
  by (simp add: single_page_def)

lemma fetchTracks_single_page:
  "fetchTracks (single_page items fs rs) token (Val (tracks_url pid)) [] reqs =
     Some (Inr (present_tracks items), reqs @ [GetTracks token (tracks_url pid)])"
proof -
  let ?up = "single_page items fs rs"
  have stop: "fetchTracks ?up token Null tracks reqs' = Some (Inr tracks, reqs')" for tracks reqs'
    by (subst fetchTracks.simps) simp
  have t: "tracks_url pid \<noteq> []"
    by (simp add: tracks_url_def)
  have g: "get_tracks ?up reqs token (tracks_url pid) = Inr \<lparr>page_items = items, page_next = Null\<rparr>"
    by (simp add: single_page_def)
  show ?thesis
    by (subst fetchTracks.simps) (simp add: t g stop push_tracks_present)
qed

lemma present_one_artist:
  "present_tracks one_artist_items =
     [example_track (Val ''t1'') 50 (Val [credit ''a1'' ''Ann'']),
      example_track (Val ''t2'') 50 (Val [credit ''a1'' ''Ann'']),
      example_track (Val ''t3'') 50 (Val [credit ''a1'' ''Ann''])]"
  by (simp add: one_artist_items_def present_tracks_def List.map_filter_simps)

lemma unique_replicate: "unique (replicate (Suc n) x) = [x]"
proof (induction n)
  case 0
  show ?case by (simp add: unique_def)
next
  case (Suc n)
  have "replicate (Suc (Suc n)) x = replicate (Suc n) x @ [x]"
    by (simp only: replicate_append_same) simp
  then show ?case
    using Suc by (simp only: unique_snoc) simp
qed

lemma artistIds_of_same_credit:
  assumes "\<And>t acc. t \<in> set ts \<Longrightarrow> push_artist_ids acc (or_empty (track_artists t)) = Inr (acc @ [i])"
  shows "artistIds_of acc (ts @ rest) = artistIds_of (acc @ replicate (length ts) i) rest"
  using assms
proof (induction ts arbitrary: acc)
  case Nil
  show ?case by simp
next
  case (Cons t ts)
  have "artistIds_of acc ((t # ts) @ rest) = artistIds_of (acc @ [i]) (ts @ rest)"
    by (simp add: Cons.prems)
  also have "\<dots> = artistIds_of ((acc @ [i]) @ replicate (length ts) i) rest"
    by (rule Cons.IH) (simp add: Cons.prems)
  also have "(acc @ [i]) @ replicate (length ts) i = acc @ replicate (length (t # ts)) i"
    by (simp add: replicate_append_same)
  finally show ?case .
qed

lemma present_tracks_Val: "present_tracks (map Val ts) = ts"
  by (induction ts) (simp_all add: present_tracks_def List.map_filter_simps)

lemma unavailable_run:
  "analyze exact_ops unavailable example_session ''p1'' =
     Some (Failure 500 ''analysis_failed'' (Val ''Service Unavailable''),
           [GetPlaylist (Val ''token'') ''p1''])"
proof -
  have tok: "ensureAccessToken unavailable example_session =
     (Inr (Val ''token'',
           \<lparr>access_token = Val ''token'', refresh_token = Val ''refresh'', expires_in = Val 100000\<rparr>),
      [])"
    by (simp add: ensureAccessToken_def js_add_exact example_session_def unavailable_def single_page_def)
  have pl: "get_playlist unavailable [] (Val ''token'') ''p1'' =
              Inl (BadStatus 503 (Val ''Service Unavailable''))"
    by (simp add: unavailable_def single_page_def)
  show ?thesis
    by (simp add: analyze_def analyze_try_def tok pl on_error_def or_str_def)
qed




lemma single_page_run:
  assumes "artistIds_of [] (present_tracks items) = Inr artistIds"
    and "fetchAudioFeatures (single_page items fs rs) (Val ''token'')
           (trackIds_of (present_tracks items)) 0 empty_features
           [GetPlaylist (Val ''token'') pid, GetTracks (Val ''token'') (tracks_url pid)]
         = (Inr audioFeatures, reqs2)"
    and "fetchArtists (single_page items fs rs) (Val ''token'') (uniqueArtistIds_of artistIds) 0 []
           reqs2 = (Inr artistsMap, reqs3)"
    and "aggregate exact_ops audioFeatures (initial_stats exact_ops) (present_tracks items) = Inr st"
  shows "analyze exact_ops (single_page items fs rs) example_session pid =
           Some (Result (build_result exact_ops example_playlist (present_tracks items) artistsMap st),
                 reqs3)"
proof -
  have ft: "fetchTracks (single_page items fs rs) (Val ''token'') (Val (tracks_url pid)) []
              ([] @ [GetPlaylist (Val ''token'') pid]) =
            Some (Inr (present_tracks items),
                  [GetPlaylist (Val ''token'') pid, GetTracks (Val ''token'') (tracks_url pid)])"
    by (simp add: fetchTracks_single_page)
  show ?thesis
    by (rule analyze_success [OF token_single_page playlist_single_page ft assms])
qed

lemma features_single_page:
  assumes "ids \<noteq> []" "length ids \<le> 100" "[] \<notin> set ids"
  shows "fetchAudioFeatures (single_page items fs rs) token ids 0 afs reqs =
           (Inr (foldl merge_audio_feature afs fs), reqs @ [GetAudioFeatures token (batch_of ids)])"
proof -
  have b: "join '','' (map Val (slice ids 0 100)) = batch_of ids"
    using assms by (simp add: slice_def batch_of_def)
  have ne: "batch_of ids \<noteq> []"
    using assms by (simp add: join_nonempty)
  have stop: "fetchAudioFeatures (single_page items fs rs) token ids 100 afs' reqs' = (Inr afs', reqs')"
    for afs' reqs'
    using assms by (subst fetchAudioFeatures.simps) simp
  have g: "get_audio_features (single_page items fs rs) reqs token (batch_of ids) = Inr (Val fs)"
    by (simp add: single_page_def)
  show ?thesis
    using assms ne by (subst fetchAudioFeatures.simps) (simp add: Let_def b g stop)
qed

lemma no_features_single_page:
  assumes "ids \<noteq> []" "length ids \<le> 100" "[] \<notin> set ids"
  shows "fetchAudioFeatures (single_page items [] rs) token ids 0 empty_features reqs =
           (Inr empty_features, reqs @ [GetAudioFeatures token (batch_of ids)])"
  using features_single_page [OF assms, of items "[]" rs token empty_features reqs] by simp

lemma no_artists_single_page:
  assumes "ids \<noteq> []" "length ids \<le> 50" "[] \<notin> set ids"
  shows "fetchArtists (single_page items fs []) token ids 0 [] reqs =
           (Inr [], reqs @ [GetArtists token (batch_of ids)])"
proof -
  have b: "join '','' (map Val (slice ids 0 50)) = batch_of ids"
    using assms by (simp add: slice_def batch_of_def)
  have ne: "batch_of ids \<noteq> []"
    using assms by (simp add: join_nonempty)
  have stop: "fetchArtists (single_page items fs []) token ids 50 amap reqs' = (Inr amap, reqs')"
    for amap reqs'
    using assms by (subst fetchArtists.simps) simp
  have g: "get_artists (single_page items fs []) reqs token (batch_of ids) = Inr (Val [])"
    by (simp add: single_page_def)
  show ?thesis
    using assms ne by (subst fetchArtists.simps) (simp add: Let_def b g stop)
qed

lemma second_page_fails_run:
  "analyze exact_ops second_page_fails example_session ''p1'' =
     Some (Failure 500 ''analysis_failed'' (Val ''Too Many Requests''),
           [GetPlaylist (Val ''token'') ''p1'', GetTracks (Val ''token'') (tracks_url ''p1''),
            GetTracks (Val ''token'') ''page2''])"
proof -
  have tok: "ensureAccessToken second_page_fails example_session =
     (Inr (Val ''token'',
           \<lparr>access_token = Val ''token'', refresh_token = Val ''refresh'', expires_in = Val 100000\<rparr>),
      [])"
    by (simp add: ensureAccessToken_def js_add_exact example_session_def second_page_fails_def single_page_def)
  have pl: "get_playlist second_page_fails [] (Val ''token'') ''p1'' = Inr example_playlist"
    by (simp add: second_page_fails_def single_page_def)
  have chain: "failing_page_chain second_page_fails (Val ''token'') [GetPlaylist (Val ''token'') ''p1'']
                 (Val (tracks_url ''p1''))
                 [\<lparr>page_items = [Val (example_track (Val ''t1'') 50 (Val [credit ''a1'' ''Ann'']))],
                    page_next = Val ''page2''\<rparr>]
                 (BadStatus 429 (Val ''Too Many Requests''))"
    by (simp add: second_page_fails_def single_page_def tracks_url_def)
  have ft: "fetchTracks second_page_fails (Val ''token'') (Val (tracks_url ''p1'')) []
              [GetPlaylist (Val ''token'') ''p1''] =
            Some (Inl (AxiosError (BadStatus 429 (Val ''Too Many Requests''))),
                  [GetPlaylist (Val ''token'') ''p1'', GetTracks (Val ''token'') (tracks_url ''p1''),
                   GetTracks (Val ''token'') ''page2''])"
    by (subst fetchTracks.simps, simp add: second_page_fails_def single_page_def tracks_url_def,
        subst fetchTracks.simps, simp)
  show ?thesis
    by (simp add: analyze_def analyze_try_def tok pl ft on_error_def or_str_def)
qed






lemma digits_320255973501:
  "nat_to_string 320255973501 = ''320255973501''" "nat_to_string 54 = ''54''"
  "nat_to_string 7 = ''7''" "nat_to_string 1 = ''1''" "nat_to_string 2 = ''2''"
  "nat_to_string 5 = ''5''" "nat_to_string (Suc 0) = ''1''"
  by (simp_all add: nat_to_string.simps digit_char_def)

lemma one_track_run:
  assumes "present_tracks items = [t]" "track_id t = Val ''t1''"
    and "track_artists t = Val [credit ''a1'' ''Ann'']"
  shows "\<exists>st reqs.
           aggregate exact_ops empty_features (initial_stats exact_ops) [t] = Inr st \<and>
           analyze exact_ops (single_page items [] []) example_session ''p1'' =
             Some (Result (build_result exact_ops example_playlist [t] [] st), reqs)"
proof -
  let ?up = "single_page items [] [] :: rat upstream"
  let ?R1 = "[GetPlaylist (Val ''token'') ''p1'', GetTracks (Val ''token'') (tracks_url ''p1'')]"
  let ?R2 = "?R1 @ [GetAudioFeatures (Val ''token'') (batch_of [''t1''])]"
  have ids: "artistIds_of [] (present_tracks items) = Inr [Val ''a1'']"
    by (simp add: assms credit_def)
  have tid: "trackIds_of (present_tracks items) = [''t1'']"
    by (simp add: assms trackIds_of_def)
  have uid: "uniqueArtistIds_of [Val ''a1''] = [''a1'']"
    by (simp add: uniqueArtistIds_of_def unique_def)
  have af: "fetchAudioFeatures ?up (Val ''token'') (trackIds_of (present_tracks items)) 0
              empty_features ?R1 = (Inr empty_features, ?R2)"
    unfolding tid by (rule no_features_single_page) simp_all
  have ar: "fetchArtists ?up (Val ''token'') (uniqueArtistIds_of [Val ''a1'']) 0 [] ?R2 =
              (Inr [], ?R2 @ [GetArtists (Val ''token'') (batch_of [''a1''])])"
    unfolding uid by (rule no_artists_single_page) simp_all
  obtain st where
    st: "aggregate exact_ops empty_features (initial_stats exact_ops) (present_tracks items) = Inr st"
    using aggregate_total [of "present_tracks items" exact_ops empty_features "initial_stats exact_ops"]
    by (auto simp: assms credit_def)
  from single_page_run [OF ids af ar st] st show ?thesis
    unfolding assms(1) by blast
qed

section \<open>The claims\<close>

text \<open>
  C1 (as stated, refuted). The claim has each genre of an artist credited on \<open>N\<close> tracks
  count \<open>N\<close> times. Here one artist is credited on each of three tracks, so that
  \<open>top_artists\<close> counts her three times, and her record has the genre rock: the genre
  count of rock is 1, not 3.
\<close>

theorem genre_not_counted_per_track_counterexample:
  "map_option (\<lambda>r. (top_artists r, top_genres r))
     (analysis_of (analyze exact_ops (single_page one_artist_items [] one_artist_records)
                     example_session ''p1''))
   = Some ([(''Ann'', Num 3)], [(''rock'', Num 1)])"
proof -
  let ?up = "single_page one_artist_items [] one_artist_records"
  let ?tracks = "present_tracks one_artist_items"
  let ?amap = "[(''a1'', \<lparr>artist_id = Val ''a1'', artist_genres = Val [''rock'']\<rparr>)]"
  let ?R1 = "[GetPlaylist (Val ''token'') ''p1'', GetTracks (Val ''token'') (tracks_url ''p1'')]"
  let ?R2 = "?R1 @ [GetAudioFeatures (Val ''token'') (batch_of [''t1'', ''t2'', ''t3''])]"
  let ?R3 = "?R2 @ [GetArtists (Val ''token'') ''a1'']"
  have ids: "artistIds_of [] ?tracks = Inr [Val ''a1'', Val ''a1'', Val ''a1'']"
    by (simp add: present_one_artist example_track_def credit_def)
  have tid: "trackIds_of ?tracks = [''t1'', ''t2'', ''t3'']"
    by (simp add: present_one_artist example_track_def trackIds_of_def)
  have uid: "uniqueArtistIds_of [Val ''a1'', Val ''a1'', Val ''a1''] = [''a1'']"
    by (simp add: uniqueArtistIds_of_def unique_def)
  have af: "fetchAudioFeatures ?up (Val ''token'') (trackIds_of ?tracks) 0 empty_features ?R1 =
              (Inr empty_features, ?R2)"
    unfolding tid by (rule no_features_single_page) simp_all
  have ar: "fetchArtists ?up (Val ''token'') (uniqueArtistIds_of [Val ''a1'', Val ''a1'', Val ''a1''])
              0 [] ?R2 = (Inr ?amap, ?R3)"
    unfolding uid
    by (simp add: fetchArtists.simps single_page_def slice_def one_artist_records_def Let_def
          dictionary_eval)
  obtain st where st: "aggregate exact_ops empty_features (initial_stats exact_ops) ?tracks = Inr st"
    using aggregate_total [of ?tracks exact_ops empty_features "initial_stats exact_ops"]
    by (auto simp: present_one_artist example_track_def credit_def)
  have run: "analyze exact_ops ?up example_session ''p1'' =
               Some (Result (build_result exact_ops example_playlist ?tracks ?amap st), ?R3)"
    by (rule single_page_run [OF ids af ar st])
  have keys: "credited_keys ?tracks = [''Ann'', ''Ann'', ''Ann'']"
    by (simp add: present_one_artist example_track_def credit_def credited_keys_def credit_keys_def
          List.map_filter_simps or_str_def)
  have ta: "artistCount st = [(''Ann'', Num 3)]"
    using artistCount_entries [OF st] unfolding keys
    by (simp add: enumeration_order_def unique_def dictionary_eval)
  have tg: "topGenres_of exact_ops ?amap = [(''rock'', Num 1)]"
    by (simp add: topGenres_of_def genreCount_of_def rank_def numeric_def sort_descending_def
          dictionary_eval)
  show ?thesis
    unfolding run
    by (simp add: analysis_of_def build_result_def topArtists_of_def ta tg rank_def numeric_def
          sort_descending_def)
qed

text \<open>
  C1 (amended). The artist records are kept in \<open>artistsMap\<close> under their ids, one
  record per id (none under the id \<open>__proto__\<close>). Provided that no genre label of a
  kept record is the name of a member of \<open>Object.prototype\<close> (for such a label the
  count object does not hold a number), each occurrence of a genre label in the genre
  list of a kept record contributes 1 to the genre counts from which \<open>top_genres\<close> is
  ranked: the count of a genre is the sum, over the kept records, of its occurrences in
  the record's genre list. The track list, and with it the number of tracks crediting an
  artist, does not enter.
\<close>

theorem genre_counts_per_artist_record:
  assumes "fetchArtists up token ids 0 [] reqs = (Inr artistsMap, reqs')"
    and "\<forall>g \<in> set (genre_labels artistsMap). \<not> inherited_name g"
  shows "distinct (map fst artistsMap) \<and> ''__proto__'' \<notin> fst ` set artistsMap \<and>
         genreCount_of artistsMap =
           map (\<lambda>g. (g, Num (sum_list (map (\<lambda>(k, a). count_list (or_empty (artist_genres a)) g)
                                         artistsMap))))
             (enumeration_order (genre_labels artistsMap)) \<and>
         top_genres (build_result ops pl tracks artistsMap st) =
           take 10 (sort_descending count_key (genreCount_of artistsMap))"
proof -
  note d = fetchArtists_keys [OF assms(1)]
  have "count_list (genre_labels artistsMap) g =
          sum_list (map (\<lambda>(k, a). count_list (or_empty (artist_genres a)) g) artistsMap)" for g
    by (simp add: genre_labels_def count_list_concat comp_def case_prod_unfold)
  then have gc: "genreCount_of artistsMap =
           map (\<lambda>g. (g, Num (sum_list (map (\<lambda>(k, a). count_list (or_empty (artist_genres a)) g)
                                         artistsMap))))
             (enumeration_order (genre_labels artistsMap))"
    by (simp add: genreCount_of_entries [OF assms(2)])
  have "list_all numeric (genreCount_of artistsMap)"
    unfolding genreCount_of_entries [OF assms(2)] by (rule numeric_entries)
  then have "rank ops (genreCount_of artistsMap) = sort_descending count_key (genreCount_of artistsMap)"
    by (rule rank_numeric)
  with d gc show ?thesis
    by (simp add: build_result_def topGenres_of_def)
qed

text \<open>
  C1, witness: the artist batch of the example resolves to one record with the genre
  rock, and the genre count is \<open>rock: 1\<close>.
\<close>

theorem genre_counts_per_artist_record_witness:
  "fetchArtists (single_page one_artist_items [] one_artist_records) (Val ''token'') [''a1''] 0 [] [] =
     (Inr [(''a1'', \<lparr>artist_id = Val ''a1'', artist_genres = Val [''rock'']\<rparr>)],
      [GetArtists (Val ''token'') ''a1'']) \<and>
   genre_labels [(''a1'', \<lparr>artist_id = Val ''a1'', artist_genres = Val [''rock'']\<rparr>)] = [''rock''] \<and>
   \<not> inherited_name ''rock'' \<and>
   genreCount_of [(''a1'', \<lparr>artist_id = Val ''a1'', artist_genres = Val [''rock'']\<rparr>)] =
     [(''rock'', Num 1)]"
proof -
  let ?up = "single_page one_artist_items [] one_artist_records"
  let ?amap = "[(''a1'', \<lparr>artist_id = Val ''a1'', artist_genres = Val [''rock'']\<rparr>)]"
  have ar: "fetchArtists ?up (Val ''token'') [''a1''] 0 [] [] =
              (Inr ?amap, [GetArtists (Val ''token'') ''a1''])"
    by (simp add: fetchArtists.simps single_page_def slice_def one_artist_records_def Let_def
          dictionary_eval)
  have labels: "genre_labels ?amap = [''rock'']"
    by (simp add: genre_labels_def)
  have plain: "\<not> inherited_name ''rock''"
    by (simp add: inherited_name_def inherited_names_def)
  then have hyp: "\<forall>g \<in> set (genre_labels ?amap). \<not> inherited_name g"
    by (simp add: labels)
  have "enumeration_order [''rock''] = [''rock'']"
    by (simp add: enumeration_order_def unique_def dictionary_eval)
  with genre_counts_per_artist_record [OF ar hyp, of exact_ops example_playlist "[]"]
  have "genreCount_of ?amap = [(''rock'', Num 1)]"
    by (simp add: labels)
  with ar labels plain show ?thesis by simp
qed

text \<open>
  C2. When some tracks (two in the scenario, any positive number here) credit one
  artist whose resolved record has the genres pop and indie, and one more track credits
  another artist whose record has the genre pop, the route answers with \<open>top_genres\<close>
  equal to pop 2, indie 1: every resolved record is counted once, however many tracks
  credit its artist, and whatever else the tracks and the feature records are.
\<close>

theorem shared_artist_scenario:
  assumes "shared \<noteq> []"
    and "\<forall>t \<in> set shared. track_artists t = Val [credit ''a1'' ''Ann'']"
    and "track_artists other = Val [credit ''b2'' ''Bob'']"
  shows "map_option top_genres
           (analysis_of (analyze exact_ops
              (single_page (map Val shared @ [Val other]) features shared_artist_records)
              example_session pid))
         = Some [(''pop'', Num 2), (''indie'', Num 1)]"
proof -
  let ?up = "single_page (map Val shared @ [Val other]) features shared_artist_records"
  let ?tracks = "shared @ [other]"
  let ?amap = "[(''a1'', \<lparr>artist_id = Val ''a1'', artist_genres = Val [''pop'', ''indie'']\<rparr>),
                (''b2'', \<lparr>artist_id = Val ''b2'', artist_genres = Val [''pop'']\<rparr>)]"
  let ?R1 = "[GetPlaylist (Val ''token'') pid, GetTracks (Val ''token'') (tracks_url pid)]"
  from assms(1) obtain m where n: "length shared = Suc m"
    by (cases shared) auto
  have tracks: "present_tracks (map Val shared @ [Val other]) = ?tracks"
    using present_tracks_Val [of "shared @ [other]"] by simp
  have ft: "fetchTracks ?up (Val ''token'') (Val (tracks_url pid)) []
              ([] @ [GetPlaylist (Val ''token'') pid]) = Some (Inr ?tracks, ?R1)"
    by (simp add: fetchTracks_single_page tracks)
  have "push_artist_ids acc (or_empty (track_artists t)) = Inr (acc @ [Val ''a1''])"
    if "t \<in> set shared" for t acc
    using that assms(2) by (simp add: credit_def)
  from artistIds_of_same_credit [OF this, of shared "[]" "[other]"]
  have ids: "artistIds_of [] ?tracks = Inr (replicate (length shared) (Val ''a1'') @ [Val ''b2''])"
    using assms(3) by (simp add: credit_def)
  have uid: "uniqueArtistIds_of (replicate (length shared) (Val ''a1'') @ [Val ''b2'']) = [''a1'', ''b2'']"
    unfolding n uniqueArtistIds_of_def unique_snoc unique_replicate by simp
  have "\<not> isl (fst (fetchAudioFeatures ?up (Val ''token'') (trackIds_of ?tracks) 0 empty_features ?R1))"
    by (rule fetchAudioFeatures_succeeds) (simp add: single_page_def)
  moreover obtain o2 R2 where
    "fetchAudioFeatures ?up (Val ''token'') (trackIds_of ?tracks) 0 empty_features ?R1 = (o2, R2)"
    by (cases "fetchAudioFeatures ?up (Val ''token'') (trackIds_of ?tracks) 0 empty_features ?R1")
  ultimately obtain afs where
    af: "fetchAudioFeatures ?up (Val ''token'') (trackIds_of ?tracks) 0 empty_features ?R1 = (Inr afs, R2)"
    by (cases o2) simp_all
  have ar: "fetchArtists ?up (Val ''token'')
              (uniqueArtistIds_of (replicate (length shared) (Val ''a1'') @ [Val ''b2'']))
              0 [] R2 = (Inr ?amap, R2 @ [GetArtists (Val ''token'') ''a1,b2''])"
    unfolding uid
    by (simp add: fetchArtists.simps single_page_def slice_def shared_artist_records_def Let_def
          dictionary_eval)
  obtain st where st: "aggregate exact_ops afs (initial_stats exact_ops) ?tracks = Inr st"
    using aggregate_total [of ?tracks exact_ops afs "initial_stats exact_ops"] assms(2,3)
    by (auto simp: credit_def)
  have run: "analyze exact_ops ?up example_session pid =
               Some (Result (build_result exact_ops example_playlist ?tracks ?amap st),
                     R2 @ [GetArtists (Val ''token'') ''a1,b2''])"
    by (rule analyze_success [OF token_single_page playlist_single_page ft ids af ar st])
  have tg: "topGenres_of exact_ops ?amap = [(''pop'', Num 2), (''indie'', Num 1)]"
    by (simp add: topGenres_of_def genreCount_of_def rank_def numeric_def count_key_def
          sort_descending_def dictionary_eval)
  show ?thesis
    unfolding run by (simp add: analysis_of_def build_result_def tg)
qed

text \<open>
  C2, witness: the scenario itself, with two tracks crediting the first artist.
\<close>

theorem shared_artist_scenario_witness:
  "[example_track (Val ''t1'') 50 (Val [credit ''a1'' ''Ann'']),
    example_track (Val ''t2'') 70 (Val [credit ''a1'' ''Ann''])] \<noteq> [] \<and>
   track_artists (example_track (Val ''t1'') 50 (Val [credit ''a1'' ''Ann''])) =
     Val [credit ''a1'' ''Ann''] \<and>
   track_artists (example_track (Val ''t2'') 70 (Val [credit ''a1'' ''Ann''])) =
     Val [credit ''a1'' ''Ann''] \<and>
   track_artists (example_track (Val ''t3'') 40 (Val [credit ''b2'' ''Bob''])) =
     Val [credit ''b2'' ''Bob''] \<and>
   map_option top_genres
     (analysis_of (analyze exact_ops
        (single_page
           [Val (example_track (Val ''t1'') 50 (Val [credit ''a1'' ''Ann''])),
            Val (example_track (Val ''t2'') 70 (Val [credit ''a1'' ''Ann''])),
            Val (example_track (Val ''t3'') 40 (Val [credit ''b2'' ''Bob'']))]
           [] shared_artist_records)
        example_session ''p1''))
   = Some [(''pop'', Num 2), (''indie'', Num 1)]"
proof -
  let ?shared = "[example_track (Val ''t1'') 50 (Val [credit ''a1'' ''Ann'']),
                  example_track (Val ''t2'') 70 (Val [credit ''a1'' ''Ann''])]"
  let ?other = "example_track (Val ''t3'') 40 (Val [credit ''b2'' ''Bob''])"
  have 1: "?shared \<noteq> []" by simp
  have 2: "\<forall>t \<in> set ?shared. track_artists t = Val [credit ''a1'' ''Ann'']"
    by (simp add: example_track_def)
  have 3: "track_artists ?other = Val [credit ''b2'' ''Bob'']"
    by (simp add: example_track_def)
  from shared_artist_scenario [OF 1 2 3, of "[]" "''p1''"] 1 2 3
  show ?thesis by simp
qed

text \<open>
  C3 (as stated, refuted). The claim has a non-success answer of the provider surface
  with the tag \<open>upstream_fetch_failed\<close>, distinct from \<open>analysis_failed\<close>. Here the
  playlist request is answered 503, and the route answers 500 with the tag
  \<open>analysis_failed\<close> and the provider's body as detail. The route has no other tag
  for failures than \<open>not_authenticated\<close> and \<open>analysis_failed\<close>.
\<close>

theorem upstream_fetch_failed_tag_counterexample:
  "map_option fst (analyze exact_ops unavailable example_session ''p1'') =
     Some (Failure 500 ''analysis_failed'' (Val ''Service Unavailable'')) \<and>
   answer_failure unavailable [] (GetPlaylist (Val ''token'') ''p1'') =
     Some (BadStatus 503 (Val ''Service Unavailable''))"
  by (simp add: unavailable_run) (simp add: unavailable_def single_page_def)

text \<open>
  C3 (amended). Let the page loop end: from the playlist's track link on, the provider
  serves a chain of pages up to a page without next link, or up to a request for a page
  that fails. Then the route answers; and whenever a request of the run (the token
  refresh, the playlist header, a page of tracks, a batch of audio features or of
  artists) was answered with a status outside 2xx, that request is the last one the run
  made, and the answer of the route is 500 with the tag \<open>analysis_failed\<close> and, as
  detail, the body of the provider's answer when it has one, and otherwise the message
  \<open>Request failed with status code N\<close>. This answer is distinct from the 401
  \<open>not_authenticated\<close>.
\<close>

theorem upstream_failure_is_analysis_failed:
  assumes "\<And>token s' reqs0 pl.
             ensureAccessToken up s = (Inr (token, s'), reqs0) \<Longrightarrow>
             get_playlist up reqs0 token pid = Inr pl \<Longrightarrow>
             \<exists>pages. page_chain up token (reqs0 @ [GetPlaylist token pid])
                        (Val (tracks_url pid)) pages \<or>
                     (\<exists>e. failing_page_chain up token (reqs0 @ [GetPlaylist token pid])
                            (Val (tracks_url pid)) pages e)"
  shows "\<exists>resp reqs.
           analyze ops up s pid = Some (resp, reqs) \<and>
           (\<forall>i n body.
              i < length reqs \<and>
              answer_failure up (take i reqs) (reqs ! i) = Some (BadStatus n body) \<longrightarrow>
              i = length reqs - 1 \<and>
              resp = Failure 500 ''analysis_failed''
                       (or_str body (Val (''Request failed with status code '' @ nat_to_string n))))"
proof -
  have "\<exists>outcome reqs. analyze_try ops up s pid = Some (outcome, reqs)"
  proof (rule analyze_try_answers)
    fix token s' reqs0 pl
    assume "ensureAccessToken up s = (Inr (token, s'), reqs0)"
      and "get_playlist up reqs0 token pid = Inr pl"
    from assms [OF this]
      fetchTracks_chain [of up token "reqs0 @ [GetPlaylist token pid]" "Val (tracks_url pid)" _ "[]"]
      fetchTracks_failing_chain [of up token "reqs0 @ [GetPlaylist token pid]"
        "Val (tracks_url pid)" _ _ "[]"]
    show "\<exists>y. fetchTracks up token (Val (tracks_url pid)) [] (reqs0 @ [GetPlaylist token pid]) = Some y"
      by blast
  qed
  then obtain outcome reqs where
    tr: "analyze_try ops up s pid = Some (outcome, reqs)"
    by blast
  define resp where "resp = (case outcome of Inl e \<Rightarrow> on_error e | Inr r \<Rightarrow> Result r)"
  have run: "analyze ops up s pid = Some (resp, reqs)"
    by (simp add: analyze_def tr resp_def)
  have st: "settled up outcome reqs"
    using tr by (rule settled_analyze_try)
  have "i = length reqs - 1 \<and>
        resp = Failure 500 ''analysis_failed''
                 (or_str body (Val (''Request failed with status code '' @ nat_to_string n)))"
    if lt: "i < length reqs"
      and fail: "answer_failure up (take i reqs) (reqs ! i) = Some (BadStatus n body)"
    for i n body
  proof -
    have not_ok: "\<not> answered_ok up reqs"
      using lt fail by (auto simp: answered_ok_def)
    with st obtain e where e: "outcome = Inl (AxiosError e)" and ne: "reqs \<noteq> []"
      and okb: "answered_ok up (butlast reqs)"
      and last: "answer_failure up (butlast reqs) (last reqs) = Some e"
      by (auto simp: settled_def split: sum.splits exn.splits)
    have i: "i = length reqs - 1"
    proof (rule ccontr)
      assume "i \<noteq> length reqs - 1"
      with lt have lt': "i < length (butlast reqs)" by simp
      with okb have "answer_failure up (take i (butlast reqs)) (butlast reqs ! i) = None"
        by (simp add: answered_ok_def)
      moreover have "take i (butlast reqs) = take i reqs"
        using lt' by (simp add: take_butlast)
      moreover have "butlast reqs ! i = reqs ! i"
        using lt' by (simp add: nth_butlast)
      ultimately show False using fail by simp
    qed
    have "take i reqs = butlast reqs" "reqs ! i = last reqs"
      using i ne by (simp_all add: butlast_conv_take last_conv_nth)
    with fail last have "e = BadStatus n body" by simp
    with e i show ?thesis
      by (simp add: resp_def on_error_BadStatus)
  qed
  with run show ?thesis by blast
qed

text \<open>
  C3, witness: the provider serves the first page of tracks and answers the request for
  the second page with 429. The route answers 500 \<open>analysis_failed\<close> with the body of
  that answer, and the failed request is the third and last of the run.
\<close>

theorem upstream_failure_is_analysis_failed_witness:
  "failing_page_chain second_page_fails (Val ''token'') ([] @ [GetPlaylist (Val ''token'') ''p1''])
     (Val (tracks_url ''p1''))
     [\<lparr>page_items = [Val (example_track (Val ''t1'') 50 (Val [credit ''a1'' ''Ann'']))],
        page_next = Val ''page2''\<rparr>]
     (BadStatus 429 (Val ''Too Many Requests'')) \<and>
   (\<exists>resp reqs.
      analyze exact_ops second_page_fails example_session ''p1'' = Some (resp, reqs) \<and>
      reqs = [GetPlaylist (Val ''token'') ''p1'', GetTracks (Val ''token'') (tracks_url ''p1''),
              GetTracks (Val ''token'') ''page2''] \<and>
      answer_failure second_page_fails (take 2 reqs) (reqs ! 2) =
        Some (BadStatus 429 (Val ''Too Many Requests'')) \<and>
      2 = length reqs - 1 \<and>
      resp = Failure 500 ''analysis_failed'' (Val ''Too Many Requests''))"
proof -
  let ?page = "\<lparr>page_items = [Val (example_track (Val ''t1'') 50 (Val [credit ''a1'' ''Ann'']))],
                 page_next = Val ''page2''\<rparr>"
  let ?reqs = "[GetPlaylist (Val ''token'') ''p1'', GetTracks (Val ''token'') (tracks_url ''p1''),
                GetTracks (Val ''token'') ''page2'']"
  have tok: "ensureAccessToken second_page_fails example_session =
     (Inr (Val ''token'',
           \<lparr>access_token = Val ''token'', refresh_token = Val ''refresh'', expires_in = Val 100000\<rparr>),
      [])"
    by (simp add: ensureAccessToken_def js_add_exact example_session_def second_page_fails_def single_page_def)
  have chain: "failing_page_chain second_page_fails (Val ''token'')
                 ([] @ [GetPlaylist (Val ''token'') ''p1'']) (Val (tracks_url ''p1'')) [?page]
                 (BadStatus 429 (Val ''Too Many Requests''))"
    by (simp add: second_page_fails_def single_page_def tracks_url_def)
  have "\<exists>resp reqs.
           analyze exact_ops second_page_fails example_session ''p1'' = Some (resp, reqs) \<and>
           (\<forall>i n body.
              i < length reqs \<and>
              answer_failure second_page_fails (take i reqs) (reqs ! i) = Some (BadStatus n body) \<longrightarrow>
              i = length reqs - 1 \<and>
              resp = Failure 500 ''analysis_failed''
                       (or_str body (Val (''Request failed with status code '' @ nat_to_string n))))"
  proof (rule upstream_failure_is_analysis_failed)
    fix token s' reqs0 pl
    assume "ensureAccessToken second_page_fails example_session = (Inr (token, s'), reqs0)"
    with tok have "token = Val ''token''" "reqs0 = []"
      by simp_all
    with chain show "\<exists>pages. page_chain second_page_fails token (reqs0 @ [GetPlaylist token ''p1''])
                        (Val (tracks_url ''p1'')) pages \<or>
                     (\<exists>e. failing_page_chain second_page_fails token (reqs0 @ [GetPlaylist token ''p1''])
                            (Val (tracks_url ''p1'')) pages e)"
      by blast
  qed
  then obtain resp reqs where
    run: "analyze exact_ops second_page_fails example_session ''p1'' = Some (resp, reqs)" and
    surf: "\<And>i n body. i < length reqs \<and>
             answer_failure second_page_fails (take i reqs) (reqs ! i) = Some (BadStatus n body) \<Longrightarrow>
             i = length reqs - 1 \<and>
             resp = Failure 500 ''analysis_failed''
                      (or_str body (Val (''Request failed with status code '' @ nat_to_string n)))"
    by blast
  from run second_page_fails_run have reqs: "reqs = ?reqs"
    by simp
  have fail: "answer_failure second_page_fails (take 2 ?reqs) (?reqs ! 2) =
                Some (BadStatus 429 (Val ''Too Many Requests''))"
    by (simp add: second_page_fails_def single_page_def)
  from surf [of 2 429 "Val ''Too Many Requests''"] fail
  have "resp = Failure 500 ''analysis_failed'' (Val ''Too Many Requests'')"
    unfolding reqs by (simp add: or_str_def)
  with run reqs fail chain show ?thesis
    by simp
qed

text \<open>
  C4. Let the provider serve the pages \<open>pages\<close> from the playlist's track link on, and
  let the route answer with an analysis. Then the page loop ends without an error with
  the tracks of all items that carry one, in page order, and \<open>total_tracks\<close> is the
  number of items, over all pages, whose track is present: an item whose track is
  \<open>null\<close> or absent is not counted, and a track is counted whatever its id.
\<close>

theorem total_tracks_counts_retrieved:
  assumes "ensureAccessToken up s = (Inr (token, s'), reqs0)"
    and "page_chain up token (reqs0 @ [GetPlaylist token pid]) (Val (tracks_url pid)) pages"
    and "analyze ops up s pid = Some (Result r, reqs)"
  shows "map_option fst
           (fetchTracks up token (Val (tracks_url pid)) [] (reqs0 @ [GetPlaylist token pid]))
         = Some (Inr (concat (map (\<lambda>p. present_tracks (page_items p)) pages))) \<and>
         total_tracks r = length (filter truthy_obj (concat (map page_items pages)))"
proof -
  from fetchTracks_chain [OF assms(2), of "[]"] obtain reqs1 where
    ft: "fetchTracks up token (Val (tracks_url pid)) [] (reqs0 @ [GetPlaylist token pid]) =
           Some (Inr (concat (map (\<lambda>p. present_tracks (page_items p)) pages)), reqs1)"
    by auto
  from analyze_Result [OF assms(3)] assms(1) ft
  have "total_tracks r = length (concat (map (\<lambda>p. present_tracks (page_items p)) pages))"
    by (auto simp: build_result_def)
  also have "\<dots> = length (filter truthy_obj (concat (map page_items pages)))"
    by (induction pages) (simp_all add: length_present_tracks)
  finally show ?thesis
    using ft by simp
qed

text \<open>
  C4, witness: two pages; the second holds a local track without id, a \<open>null\<close>
  placeholder, an item without track, and an ordinary track. Three tracks are counted.
\<close>

theorem total_tracks_counts_retrieved_witness:
  "\<exists>r reqs.
     ensureAccessToken two_pages example_session =
       (Inr (Val ''token'',
             \<lparr>access_token = Val ''token'', refresh_token = Val ''refresh'', expires_in = Val 100000\<rparr>),
        []) \<and>
     page_chain two_pages (Val ''token'') ([] @ [GetPlaylist (Val ''token'') ''p1''])
       (Val (tracks_url ''p1''))
       [\<lparr>page_items = [Val (example_track (Val ''t1'') 50 (Val [credit ''a1'' ''Ann'']))],
          page_next = Val ''page2''\<rparr>,
        \<lparr>page_items = placeholder_items, page_next = Null\<rparr>] \<and>
     analyze exact_ops two_pages example_session ''p1'' = Some (Result r, reqs) \<and>
     total_tracks r = 3"
proof -
  let ?t1 = "example_track (Val ''t1'') 50 (Val [credit ''a1'' ''Ann''])"
  let ?tl = "example_track Null 0 (Val [])"
  let ?t2 = "example_track (Val ''t2'') 50 (Val [credit ''a1'' ''Ann''])"
  let ?tracks = "[?t1, ?tl, ?t2]"
  let ?p1 = "\<lparr>page_items = [Val ?t1], page_next = Val ''page2''\<rparr>"
  let ?p2 = "\<lparr>page_items = placeholder_items, page_next = Null\<rparr>"
  let ?R0 = "[] @ [GetPlaylist (Val ''token'') ''p1'']"
  have tok: "ensureAccessToken two_pages example_session =
     (Inr (Val ''token'',
           \<lparr>access_token = Val ''token'', refresh_token = Val ''refresh'', expires_in = Val 100000\<rparr>),
      [])"
    by (simp add: ensureAccessToken_def js_add_exact example_session_def two_pages_def single_page_def)
  have pl: "get_playlist two_pages [] (Val ''token'') ''p1'' = Inr example_playlist"
    by (simp add: two_pages_def single_page_def)
  have chain: "page_chain two_pages (Val ''token'') ?R0 (Val (tracks_url ''p1'')) [?p1, ?p2]"
    by (simp add: two_pages_def single_page_def tracks_url_def)
  from fetchTracks_chain [OF chain, of "[]"] obtain R1 where
    "fetchTracks two_pages (Val ''token'') (Val (tracks_url ''p1'')) [] ?R0 =
       Some (Inr ([] @ concat (map (\<lambda>p. present_tracks (page_items p)) [?p1, ?p2])), R1)"
    by blast
  moreover have "[] @ concat (map (\<lambda>p. present_tracks (page_items p)) [?p1, ?p2]) = ?tracks"
    by (simp add: placeholder_items_def present_tracks_def List.map_filter_simps)
  ultimately have ft:
    "fetchTracks two_pages (Val ''token'') (Val (tracks_url ''p1'')) [] ?R0 = Some (Inr ?tracks, R1)"
    by simp
  have ids: "artistIds_of [] ?tracks = Inr [Val ''a1'', Val ''a1'']"
    by (simp add: example_track_def credit_def)
  have af: "fetchAudioFeatures two_pages (Val ''token'') (trackIds_of ?tracks) 0 empty_features R1 =
              (Inr empty_features, R1 @ [GetAudioFeatures (Val ''token'') ''t1,t2''])"
    by (simp add: fetchAudioFeatures.simps trackIds_of_def example_track_def two_pages_def
          single_page_def slice_def Let_def)
  have ar: "fetchArtists two_pages (Val ''token'') (uniqueArtistIds_of [Val ''a1'', Val ''a1'']) 0 []
              (R1 @ [GetAudioFeatures (Val ''token'') ''t1,t2'']) =
            (Inr [], R1 @ [GetAudioFeatures (Val ''token'') ''t1,t2'']
                        @ [GetArtists (Val ''token'') ''a1''])"
    by (simp add: fetchArtists.simps uniqueArtistIds_of_def unique_def two_pages_def
          single_page_def slice_def Let_def)
  obtain st where st: "aggregate exact_ops empty_features (initial_stats exact_ops) ?tracks = Inr st"
    using aggregate_total [of ?tracks exact_ops empty_features "initial_stats exact_ops"]
    by (auto simp: example_track_def credit_def)
  note run = analyze_success [OF tok pl ft ids af ar st]
  from total_tracks_counts_retrieved [OF tok chain run]
  have "total_tracks (build_result exact_ops example_playlist ?tracks [] st) = 3"
    by (simp add: placeholder_items_def)
  with tok chain run show ?thesis
    by blast
qed

text \<open>
  C5. For a list of ids none of which is empty (such is every list that has passed
  \<open>filter(Boolean)\<close>), the requests that the audio-feature loop adds are those for the
  contiguous chunks of 100 ids, in order: for all of them when the loop ends without an
  error, for an initial segment of them otherwise; likewise the artist loop, with chunks
  of 50. Against a provider that answers every batch (for the artist loop: with no
  \<open>null\<close> entry in its answers), the loop does end without an error, having requested
  every chunk. The chunks concatenate to the id list, none is empty or longer than the
  batch size, and none has an empty \<open>ids\<close> parameter. A list of 250 ids has chunks of
  sizes 100, 100 and 50; for the empty list no request is made.
\<close>

theorem batches_are_contiguous_chunks:
  assumes "[] \<notin> set ids"
  shows
    "(\<exists>issued. prefix issued (chunks 100 ids) \<and>
        snd (fetchAudioFeatures up token ids 0 afs reqs) =
          reqs @ map (\<lambda>c. GetAudioFeatures token (batch_of c)) issued \<and>
        (\<not> isl (fst (fetchAudioFeatures up token ids 0 afs reqs)) \<longrightarrow> issued = chunks 100 ids)) \<and>
     (\<exists>issued. prefix issued (chunks 50 ids) \<and>
        snd (fetchArtists up token ids 0 amap reqs) =
          reqs @ map (\<lambda>c. GetArtists token (batch_of c)) issued \<and>
        (\<not> isl (fst (fetchArtists up token ids 0 amap reqs)) \<longrightarrow> issued = chunks 50 ids)) \<and>
     ((\<forall>before batch. \<not> isl (get_audio_features up before token batch)) \<longrightarrow>
        \<not> isl (fst (fetchAudioFeatures up token ids 0 afs reqs)) \<and>
        snd (fetchAudioFeatures up token ids 0 afs reqs) =
          reqs @ map (\<lambda>c. GetAudioFeatures token (batch_of c)) (chunks 100 ids)) \<and>
     ((\<forall>before batch. \<exists>data. get_artists up before token batch = Inr data \<and>
                         (\<forall>x \<in> set (or_empty data). truthy_obj x)) \<longrightarrow>
        \<not> isl (fst (fetchArtists up token ids 0 amap reqs)) \<and>
        snd (fetchArtists up token ids 0 amap reqs) =
          reqs @ map (\<lambda>c. GetArtists token (batch_of c)) (chunks 50 ids)) \<and>
     concat (chunks 100 ids) = ids \<and> concat (chunks 50 ids) = ids \<and>
     (\<forall>c \<in> set (chunks 100 ids). c \<noteq> [] \<and> length c \<le> 100 \<and> batch_of c \<noteq> []) \<and>
     (\<forall>c \<in> set (chunks 50 ids). c \<noteq> [] \<and> length c \<le> 50 \<and> batch_of c \<noteq> []) \<and>
     (length ids = 250 \<longrightarrow> map length (chunks 100 ids) = [100, 100, 50]) \<and>
     (ids = [] \<longrightarrow> snd (fetchAudioFeatures up token ids 0 afs reqs) = reqs \<and>
                   snd (fetchArtists up token ids 0 amap reqs) = reqs)"
proof -
  have sub: "[] \<notin> set c" if "c \<in> set (chunks n ids)" "0 < n" for c n
  proof -
    from that have "set c \<subseteq> set (concat (chunks n ids))" by auto
    with that assms show ?thesis by (auto simp: concat_chunks)
  qed
  have b100: "c \<noteq> [] \<and> length c \<le> 100 \<and> batch_of c \<noteq> []" if "c \<in> set (chunks 100 ids)" for c
    using that chunks_bounds [of c 100 ids] sub [of c 100] by (simp add: join_nonempty)
  have b50: "c \<noteq> [] \<and> length c \<le> 50 \<and> batch_of c \<noteq> []" if "c \<in> set (chunks 50 ids)" for c
    using that chunks_bounds [of c 50 ids] sub [of c 50] by (simp add: join_nonempty)
  have e1: "snd (fetchAudioFeatures up token [] 0 afs reqs) = reqs"
    by (subst fetchAudioFeatures.simps) simp
  have e2: "snd (fetchArtists up token [] 0 amap reqs) = reqs"
    by (subst fetchArtists.simps) simp
  have r1: "\<exists>issued. prefix issued (chunks 100 ids) \<and>
        snd (fetchAudioFeatures up token ids 0 afs reqs) =
          reqs @ map (\<lambda>c. GetAudioFeatures token (batch_of c)) issued \<and>
        (\<not> isl (fst (fetchAudioFeatures up token ids 0 afs reqs)) \<longrightarrow> issued = chunks 100 ids)"
    using fetchAudioFeatures_requests [OF assms, of 0 up token afs reqs] by simp
  have r2: "\<exists>issued. prefix issued (chunks 50 ids) \<and>
        snd (fetchArtists up token ids 0 amap reqs) =
          reqs @ map (\<lambda>c. GetArtists token (batch_of c)) issued \<and>
        (\<not> isl (fst (fetchArtists up token ids 0 amap reqs)) \<longrightarrow> issued = chunks 50 ids)"
    using fetchArtists_requests [OF assms, of 0 up token amap reqs] by simp
  have p1: "(\<forall>before batch. \<not> isl (get_audio_features up before token batch)) \<longrightarrow>
        \<not> isl (fst (fetchAudioFeatures up token ids 0 afs reqs)) \<and>
        snd (fetchAudioFeatures up token ids 0 afs reqs) =
          reqs @ map (\<lambda>c. GetAudioFeatures token (batch_of c)) (chunks 100 ids)"
  proof
    assume "\<forall>before batch. \<not> isl (get_audio_features up before token batch)"
    from fetchAudioFeatures_succeeds [OF this, of ids 0 afs reqs] r1
    show "\<not> isl (fst (fetchAudioFeatures up token ids 0 afs reqs)) \<and>
        snd (fetchAudioFeatures up token ids 0 afs reqs) =
          reqs @ map (\<lambda>c. GetAudioFeatures token (batch_of c)) (chunks 100 ids)"
      by auto
  qed
  have p2: "(\<forall>before batch. \<exists>data. get_artists up before token batch = Inr data \<and>
                         (\<forall>x \<in> set (or_empty data). truthy_obj x)) \<longrightarrow>
        \<not> isl (fst (fetchArtists up token ids 0 amap reqs)) \<and>
        snd (fetchArtists up token ids 0 amap reqs) =
          reqs @ map (\<lambda>c. GetArtists token (batch_of c)) (chunks 50 ids)"
  proof
    assume "\<forall>before batch. \<exists>data. get_artists up before token batch = Inr data \<and>
                         (\<forall>x \<in> set (or_empty data). truthy_obj x)"
    from fetchArtists_succeeds [OF this, of ids 0 amap reqs] r2
    show "\<not> isl (fst (fetchArtists up token ids 0 amap reqs)) \<and>
        snd (fetchArtists up token ids 0 amap reqs) =
          reqs @ map (\<lambda>c. GetArtists token (batch_of c)) (chunks 50 ids)"
      by auto
  qed
  have c1: "concat (chunks 100 ids) = ids" and c2: "concat (chunks 50 ids) = ids"
    by (simp_all add: concat_chunks)
  have a100: "\<forall>c \<in> set (chunks 100 ids). c \<noteq> [] \<and> length c \<le> 100 \<and> batch_of c \<noteq> []"
    using b100 by blast
  have a50: "\<forall>c \<in> set (chunks 50 ids). c \<noteq> [] \<and> length c \<le> 50 \<and> batch_of c \<noteq> []"
    using b50 by blast
  have s250: "length ids = 250 \<longrightarrow> map length (chunks 100 ids) = [100, 100, 50]"
    by (simp add: chunks_250)
  have e: "ids = [] \<longrightarrow> snd (fetchAudioFeatures up token ids 0 afs reqs) = reqs \<and>
                   snd (fetchArtists up token ids 0 amap reqs) = reqs"
    using e1 e2 by simp
  show ?thesis
    using r1 r2 p1 p2 c1 c2 a100 a50 s250 e by - (intro conjI, assumption+)
qed

text \<open>
  C5, witness: 250 ids against a provider that answers every batch: the audio-feature
  loop makes exactly the three requests for the chunks of sizes 100, 100 and 50, and the
  artist loop the five requests for the chunks of size 50, both without an error.
\<close>

theorem batches_are_contiguous_chunks_witness:
  "[] \<notin> set (replicate 250 ''id'') \<and>
   map length (chunks 100 (replicate 250 ''id'')) = [100, 100, 50] \<and>
   map length (chunks 50 (replicate 250 ''id'')) = [50, 50, 50, 50, 50] \<and>
   \<not> isl (fst (fetchAudioFeatures (single_page [] [] []) (Val ''token'') (replicate 250 ''id'') 0
                 empty_features [])) \<and>
   snd (fetchAudioFeatures (single_page [] [] []) (Val ''token'') (replicate 250 ''id'') 0
          empty_features []) =
     map (\<lambda>c. GetAudioFeatures (Val ''token'') (batch_of c)) (chunks 100 (replicate 250 ''id'')) \<and>
   \<not> isl (fst (fetchArtists (single_page [] [] []) (Val ''token'') (replicate 250 ''id'') 0 [] [])) \<and>
   snd (fetchArtists (single_page [] [] []) (Val ''token'') (replicate 250 ''id'') 0 [] []) =
     map (\<lambda>c. GetArtists (Val ''token'') (batch_of c)) (chunks 50 (replicate 250 ''id''))"
proof -
  let ?ids = "replicate 250 ''id''"
  let ?up = "single_page [] [] [] :: rat upstream"
  have ne: "[] \<notin> set ?ids"
    by simp
  have ok1: "\<forall>before batch. \<not> isl (get_audio_features ?up before (Val ''token'') batch)"
    by (simp add: single_page_def)
  have ok2: "\<forall>before batch. \<exists>data. get_artists ?up before (Val ''token'') batch = Inr data \<and>
                         (\<forall>x \<in> set (or_empty data). truthy_obj x)"
    by (simp add: single_page_def)
  note inst = batches_are_contiguous_chunks [OF ne, of ?up "Val ''token''" empty_features "[]" "[]"]
  from inst ok1 have a: "\<not> isl (fst (fetchAudioFeatures ?up (Val ''token'') ?ids 0 empty_features [])) \<and>
      snd (fetchAudioFeatures ?up (Val ''token'') ?ids 0 empty_features []) =
      map (\<lambda>c. GetAudioFeatures (Val ''token'') (batch_of c)) (chunks 100 ?ids)"
    by simp
  from inst ok2 have b: "\<not> isl (fst (fetchArtists ?up (Val ''token'') ?ids 0 [] [])) \<and>
      snd (fetchArtists ?up (Val ''token'') ?ids 0 [] []) =
      map (\<lambda>c. GetArtists (Val ''token'') (batch_of c)) (chunks 50 ?ids)"
    by simp
  from inst have c: "map length (chunks 100 ?ids) = [100, 100, 50]"
    by simp
  have d: "map length (chunks 50 ?ids) = [50, 50, 50, 50, 50]"
    by (rule chunks_250_by_50) simp
  from ne a b c d show ?thesis
    by blast
qed





text \<open>
  C8 (as stated, refuted). The claim is made for every non-negative total. Here the
  playlist has one track that lasts \<open>2 ^ 60\<close> milliseconds. The quotient of \<open>2 ^ 60\<close>
  by 1000 is 1152921504606846.976; the doubles around it are a quarter apart, the
  division rounds it to 1152921504606847, and \<open>duration_human\<close> ends in 7 seconds. Read
  back, the string gives 1152921504606847 seconds, one more than the total floored to
  whole seconds.
\<close>

theorem duration_not_floored_counterexample:
  "map_option (\<lambda>r. (duration_ms r, duration_human r))
     (analysis_of (analyze exact_ops (single_page long_items [] []) example_session ''p1''))
   = Some (1152921504606846976, ''320255973501h 54m 7s'') \<and>
   parseDuration ''320255973501h 54m 7s'' = Some (320255973501, 54, 7) \<and>
   (320255973501 * 3600 + 54 * 60 + 7 :: int) = 1152921504606847 \<and>
   (1152921504606846976 :: int) div 1000 = 1152921504606846"
proof -
  let ?t = "\<lparr>track_id = Val ''t1'', track_name = Val ''song'',
              track_duration_ms = Val 1152921504606846976, track_popularity = Val 50,
              track_artists = Val [credit ''a1'' ''Ann'']\<rparr>"
  have tracks: "present_tracks long_items = [?t]"
    by (simp add: long_items_def present_tracks_def List.map_filter_simps)
  from one_track_run [OF tracks] obtain st reqs where
    st: "aggregate exact_ops empty_features (initial_stats exact_ops) [?t] = Inr st" and
    run: "analyze exact_ops (single_page long_items [] []) example_session ''p1'' =
            Some (Result (build_result exact_ops example_playlist [?t] [] st), reqs)"
    by auto
  have total: "totalDurationMs st = 1152921504606846976"
    using aggregate_Inr [OF st] by (simp add: initial_stats_def js_add_2_60)
  have parse: "parseDuration ''320255973501h 54m 7s'' = Some (320255973501, 54, 7)"
    using parseDuration_with_hours [of 320255973501 54 7] by (simp add: digits_320255973501)
  show ?thesis
    unfolding run using parse
    by (simp add: analysis_of_def build_result_def total formatDuration_2_60)
qed

text \<open>
  C8 (amended). When the route answers with an analysis whose total duration is
  non-negative and below \<open>2 ^ 53\<close> milliseconds (up to there the division by 1000,
  floored, is exact), \<open>duration_human\<close> is the total floored to whole seconds \<open>s\<close>
  and written as \<open>h = s div 3600\<close>, \<open>m = s mod 3600 div 60\<close> and \<open>sec = s mod 60\<close>
  in decimal, leaving the hour component out exactly when it is zero and always writing
  minutes and seconds; reading the string back gives these three components, and they
  recombine to the same number of whole seconds.
\<close>

theorem duration_human_roundtrip:
  assumes "analyze ops up session pid = Some (Result r, reqs)"
    and "0 \<le> duration_ms r" and "duration_ms r < 2 ^ 53"
  shows "let s = nat (duration_ms r div 1000); h = s div 3600; m = s mod 3600 div 60; sec = s mod 60
         in duration_human r =
              (if h = 0 then [] else nat_to_string h @ ''h '')
              @ nat_to_string m @ ''m '' @ nat_to_string sec @ ''s'' \<and>
            parseDuration (duration_human r) = Some (h, m, sec) \<and>
            h * 3600 + m * 60 + sec = s \<and> int s = duration_ms r div 1000"
proof -
  define ms where "ms = duration_ms r"
  define s where "s = nat (ms div 1000)"
  define h where "h = s div 3600"
  define m where "m = s mod 3600 div 60"
  define sec where "sec = s mod 60"
  from analyze_Result [OF assms(1)] have human: "duration_human r = formatDuration ms"
    by (auto simp: build_result_def ms_def)
  have nonneg: "0 \<le> ms" and bound: "ms < 2 ^ 53"
    using assms(2,3) by (simp_all add: ms_def)
  have sn: "nat ms div 1000 = s"
    using nonneg by (simp add: s_def nat_div_distrib)
  have fmt: "formatDuration ms =
               (if h = 0 then [] else nat_to_string h @ ''h '')
               @ nat_to_string m @ ''m '' @ nat_to_string sec @ ''s''"
    using formatDuration_nonneg [OF nonneg bound] by (simp add: sn h_def m_def sec_def)
  have parse: "parseDuration (formatDuration ms) = Some (h, m, sec)"
    unfolding fmt
    using parseDuration_with_hours [of h m sec] parseDuration_without_hours [of m sec]
    by (cases "h = 0") simp_all
  have total: "h * 3600 + m * 60 + sec = s"
    unfolding h_def m_def sec_def by (rule hms_recombine)
  have "int s = ms div 1000"
    using nonneg by (simp add: s_def pos_imp_zdiv_nonneg_iff)
  with fmt parse total show ?thesis
    unfolding Let_def human ms_def [symmetric] s_def [symmetric] h_def [symmetric]
      m_def [symmetric] sec_def [symmetric]
    by simp
qed

text \<open>
  C8, witness: a playlist of one track that lasts 3725999 ms; the total is written
  \<open>1h 2m 5s\<close> and read back as 1, 2 and 5.
\<close>

theorem duration_human_roundtrip_witness:
  "\<exists>r reqs.
     analyze exact_ops (single_page hour_items [] []) example_session ''p1'' = Some (Result r, reqs) \<and>
     duration_ms r = 3725999 \<and> 0 \<le> duration_ms r \<and> duration_ms r < 2 ^ 53 \<and>
     duration_human r = ''1h 2m 5s'' \<and>
     parseDuration (duration_human r) = Some (1, 2, 5)"
proof -
  let ?t = "\<lparr>track_id = Val ''t1'', track_name = Val ''song'',
              track_duration_ms = Val 3725999, track_popularity = Val 50,
              track_artists = Val [credit ''a1'' ''Ann'']\<rparr>"
  have tracks: "present_tracks hour_items = [?t]"
    by (simp add: hour_items_def present_tracks_def List.map_filter_simps)
  from one_track_run [OF tracks] obtain st reqs where
    st: "aggregate exact_ops empty_features (initial_stats exact_ops) [?t] = Inr st" and
    run: "analyze exact_ops (single_page hour_items [] []) example_session ''p1'' =
            Some (Result (build_result exact_ops example_playlist [?t] [] st), reqs)"
    by auto
  let ?r = "build_result exact_ops example_playlist [?t] [] st"
  have "js_add 0 3725999 = 0 + 3725999"
    by (rule js_add_exact) simp_all
  then have total: "duration_ms ?r = 3725999"
    using aggregate_Inr [OF st] by (simp add: initial_stats_def build_result_def)
  have nonneg: "0 \<le> duration_ms ?r" and bound: "duration_ms ?r < 2 ^ 53"
    by (simp_all add: total)
  note rt = duration_human_roundtrip [OF run nonneg bound, unfolded Let_def total]
  have human: "duration_human ?r = ''1h 2m 5s''"
    using rt [THEN conjunct1] by (simp add: digits_320255973501)
  have "parseDuration (duration_human ?r) = Some (1, 2, 5)"
    using rt [THEN conjunct2, THEN conjunct1] by simp
  with run total nonneg bound human show ?thesis
    by blast
qed

text \<open>
  C9. If a track that the page loop retrieved has no \<open>artists\<close> array, the route does
  not answer with an analysis but with 500 \<open>analysis_failed\<close>; the statistics pass
  throws a \<open>TypeError\<close> on such a track list whatever the feature records and the
  statistics so far, although the artist count next to it, which reads
  \<open>t.artists || []\<close>, would have passed the track over.
\<close>

theorem missing_artists_fails_analysis:
  assumes "ensureAccessToken up s = (Inr (token, s'), reqs0)"
    and "get_playlist up reqs0 token pid = Inr pl"
    and "fetchTracks up token (Val (tracks_url pid)) [] (reqs0 @ [GetPlaylist token pid])
           = Some (Inr tracks, reqs1)"
    and "t \<in> set tracks"
    and "\<not> truthy_obj (track_artists t)"
  shows "(\<exists>detail reqs. analyze ops up s pid = Some (Failure 500 ''analysis_failed'' detail, reqs)) \<and>
         (\<exists>w p. aggregate ops audioFeatures st tracks = Inl (TypeError w p)) \<and>
         foldl count_artist counts (or_empty (track_artists t)) = counts"
proof -
  from assms(5) have thrown: "\<exists>e. artists_map_name (track_artists t) = Inl e"
    by (cases "track_artists t") simp_all
  then have agg: "\<exists>w p. aggregate ops afs st tracks = Inl (TypeError w p)" for afs st
    using aggregate_throws [OF assms(4)] by blast
  have skip: "foldl count_artist counts (or_empty (track_artists t)) = counts"
    using assms(5) by (cases "track_artists t") simp_all
  have fail: "\<exists>detail. (on_error e :: 'a response) = Failure 500 ''analysis_failed'' detail"
    if "\<forall>m. e \<noteq> Error m" for e
    using that on_error_analysis_failed [of e] by blast
  have "\<exists>e reqs. analyze_try ops up s pid = Some (Inl e, reqs) \<and> (\<forall>m. e \<noteq> Error m)"
  proof (cases "artistIds_of [] tracks")
    case (Inl e)
    with assms(1-3) have "analyze_try ops up s pid = Some (Inl e, reqs1)"
      by (simp add: analyze_try_def)
    with artistIds_of_throws [OF Inl] show ?thesis by auto
  next
    case ids: (Inr artistIds)
    obtain o2 reqs2 where af:
      "fetchAudioFeatures up token (trackIds_of tracks) 0 empty_features reqs1 = (o2, reqs2)"
      by (cases "fetchAudioFeatures up token (trackIds_of tracks) 0 empty_features reqs1")
    show ?thesis
    proof (cases o2)
      case (Inl e)
      with assms(1-3) ids af have "analyze_try ops up s pid = Some (Inl e, reqs2)"
        by (simp add: analyze_try_def)
      moreover have "\<exists>x. e = AxiosError x"
        using fetchAudioFeatures_throws [of up token "trackIds_of tracks" 0 empty_features reqs1 e]
          af Inl
        by simp
      ultimately show ?thesis by auto
    next
      case afs: (Inr audioFeatures')
      obtain o3 reqs3 where ar:
        "fetchArtists up token (uniqueArtistIds_of artistIds) 0 [] reqs2 = (o3, reqs3)"
        by (cases "fetchArtists up token (uniqueArtistIds_of artistIds) 0 [] reqs2")
      show ?thesis
      proof (cases o3)
        case (Inl e)
        with assms(1-3) ids af afs ar have "analyze_try ops up s pid = Some (Inl e, reqs3)"
          by (simp add: analyze_try_def)
        moreover have "\<forall>m. e \<noteq> Error m"
          using fetchArtists_throws [of up token "uniqueArtistIds_of artistIds" 0 "[]" reqs2 e] ar Inl
          by simp
        ultimately show ?thesis by auto
      next
        case amap: (Inr artistsMap)
        from agg [of audioFeatures' "initial_stats ops"] obtain w p where
          "aggregate ops audioFeatures' (initial_stats ops) tracks = Inl (TypeError w p)"
          by blast
        with assms(1-3) ids af afs ar amap
        have "analyze_try ops up s pid = Some (Inl (TypeError w p), reqs3)"
          by (simp add: analyze_try_def)
        then show ?thesis by auto
      qed
    qed
  qed
  then obtain e reqs where "analyze_try ops up s pid = Some (Inl e, reqs)" "\<forall>m. e \<noteq> Error m"
    by blast
  with fail [of e] have "\<exists>detail reqs. analyze ops up s pid = Some (Failure 500 ''analysis_failed'' detail, reqs)"
    by (auto simp: analyze_def)
  with agg skip show ?thesis by blast
qed

text \<open>
  C9, witness: a playlist of one track without \<open>artists\<close>.
\<close>

theorem missing_artists_fails_analysis_witness:
  "\<exists>detail reqs.
     analyze exact_ops (single_page artistless_items [] []) example_session ''p1'' =
       Some (Failure 500 ''analysis_failed'' detail, reqs)"
proof -
  let ?t = "example_track (Val ''t1'') 50 Undefined"
  have tracks: "present_tracks artistless_items = [?t]"
    by (simp add: artistless_items_def present_tracks_def List.map_filter_simps)
  have ft: "fetchTracks (single_page artistless_items [] []) (Val ''token'') (Val (tracks_url ''p1'')) []
              ([] @ [GetPlaylist (Val ''token'') ''p1'']) =
            Some (Inr [?t], [GetPlaylist (Val ''token'') ''p1'',
                             GetTracks (Val ''token'') (tracks_url ''p1'')])"
    by (simp add: fetchTracks_single_page tracks)
  have mem: "?t \<in> set [?t]" by simp
  have lacks: "\<not> truthy_obj (track_artists ?t)"
    by (simp add: example_track_def)
  from missing_artists_fails_analysis
    [OF token_single_page playlist_single_page ft mem lacks, of exact_ops]
  show ?thesis by blast
qed


end
